theory Spec2Isabelle
  imports Main
begin

section \<open>Vertical image cutting and PDF assembly (cut_images_to_pdf.py)\<close>

text \<open>
  A shallow embedding of the batch pipeline of \<^verbatim>\<open>cut_images_to_pdf.py\<close>: the three
  file name functions built on \<^verbatim>\<open>re\<close>, \<^verbatim>\<open>cut_image_vertically\<close>, \<^verbatim>\<open>save_cut_images\<close>,
  \<^verbatim>\<open>images_to_pdf\<close> and \<^verbatim>\<open>ImageCutterApp.process_folder\<close> with the thread wrapper that
  calls it.

  Conventions.
  \<^item> A Python \<^verbatim>\<open>str\<close> is a \<open>string\<close> holding its UTF-8 bytes. The patterns of the source
    only name ASCII characters, and \<^verbatim>\<open>.\<close> excludes the newline alone, so matching on bytes
    and on code points captures the same text. The class \<^verbatim>\<open>\d\<close> is modelled as the ten
    ASCII digits; Python's \<^verbatim>\<open>\d\<close> on \<^verbatim>\<open>str\<close> also accepts the decimal digits of other
    scripts, which are outside this model.
  \<^item> Python integers are \<open>int\<close>; \<^verbatim>\<open>//\<close> is \<open>div\<close> (both round towards minus infinity),
    with the division by zero written out as an exception.
  \<^item> An exception is a value: a function that can raise returns \<open>'a res\<close>, and when it
    also has effects it returns the new world with it.
\<close>

subsection \<open>Exceptions and results\<close>

datatype exn =
    FileNotFoundError
  | FileExistsError
  | NotADirectoryError
  | IsADirectoryError
  | PermissionError
  | UnidentifiedImageError
  | ZeroDivisionError
  | OSError string

datatype 'a res = Return 'a | Raise exn

subsection \<open>File name functions\<close>

definition newline :: char where
  "newline = CHR 0x0A"

definition is_digit :: "char \<Rightarrow> bool" where
  "is_digit c \<longleftrightarrow> c \<in> set ''0123456789''"

text \<open>The alternation \<^verbatim>\<open>(png|jpg|jpeg|PNG|JPG|JPEG)\<close>, in the order it is tried.\<close>

definition extensions :: "string list" where
  "extensions = [''png'', ''jpg'', ''jpeg'', ''PNG'', ''JPG'', ''JPEG'']"

text \<open>
  \<^verbatim>\<open>$\<close> without \<^verbatim>\<open>re.MULTILINE\<close>: the position is the end of the string, or it is just
  before a newline that is the last character of the string.
\<close>

definition at_dollar :: "string \<Rightarrow> bool" where
  "at_dollar r \<longleftrightarrow> r = [] \<or> r = [newline]"

text \<open>
  \<^verbatim>\<open>(png|jpg|jpeg|PNG|JPG|JPEG)$\<close> at the start of \<open>r\<close>: the first alternative that is a
  prefix of \<open>r\<close> and is followed by \<^verbatim>\<open>$\<close>. The result is what is left after the
  alternative (empty, or the final newline).
\<close>

fun match_ext :: "string list \<Rightarrow> string \<Rightarrow> string option" where
  "match_ext [] r = None"
| "match_ext (e # es) r =
     (if take (length e) r = e \<and> at_dollar (drop (length e) r)
      then Some (drop (length e) r) else match_ext es r)"

text \<open>
  \<^verbatim>\<open>-(\d+)\.(png|jpg|jpeg|PNG|JPG|JPEG)$\<close> matched at the start of \<open>r\<close>. The greedy
  \<^verbatim>\<open>\d+\<close> takes the whole run of digits; giving a digit back never helps, since the next
  character of the pattern is the dot. The result is group 1 and the text after the match.
\<close>

definition match_suffix :: "string \<Rightarrow> (string \<times> string) option" where
  "match_suffix r =
     (case r of
        [] \<Rightarrow> None
      | c # r1 \<Rightarrow>
          if c \<noteq> CHR ''-'' then None
          else
            let ds = takeWhile is_digit r1; r2 = dropWhile is_digit r1 in
            if ds = [] then None
            else (case r2 of
                    [] \<Rightarrow> None
                  | d # r3 \<Rightarrow>
                      if d \<noteq> CHR ''.'' then None
                      else (case match_ext extensions r3 of
                              None \<Rightarrow> None
                            | Some rest \<Rightarrow> Some (ds, rest))))"

text \<open>
  \<^verbatim>\<open>re.search\<close> of that pattern: the leftmost position where it matches. The result is
  the text before the match, group 1 and the text after the match.
\<close>

fun re_search_suffix :: "string \<Rightarrow> string \<Rightarrow> (string \<times> string \<times> string) option" where
  "re_search_suffix pre [] = None"
| "re_search_suffix pre (c # cs) =
     (case match_suffix (c # cs) of
        Some (ds, rest) \<Rightarrow> Some (pre, ds, rest)
      | None \<Rightarrow> re_search_suffix (pre @ [c]) cs)"

text \<open>
  \<^verbatim>\<open>int(s)\<close> on a non-empty string of ASCII digits, leading zeros allowed. The length of
  \<open>s\<close> is not bounded here; CPython from 3.11 on refuses more than 4300 digits, which no
  file name reaches.
\<close>

definition digit_value :: "char \<Rightarrow> int" where
  "digit_value c = int (of_char c) - 48"

definition int_of_digits :: "string \<Rightarrow> int" where
  "int_of_digits ds = foldl (\<lambda>a c. 10 * a + digit_value c) 0 ds"

definition extract_page_count :: "string \<Rightarrow> int option" where
  "extract_page_count filename =
     (case re_search_suffix [] filename of
        Some (pre, ds, rest) \<Rightarrow> Some (int_of_digits ds)
      | None \<Rightarrow> None)"

text \<open>
  \<^verbatim>\<open>^(.+?)-\d+\.(png|jpg|jpeg|PNG|JPG|JPEG)$\<close>: \<^verbatim>\<open>^\<close> only matches at position 0, so
  \<^verbatim>\<open>re.search\<close> succeeds there or nowhere. The lazy group holds \<open>acc\<close> and tries the rest
  of the pattern before it takes one more character, which must not be a newline.
\<close>

fun lazy_group :: "string \<Rightarrow> string \<Rightarrow> string option" where
  "lazy_group acc [] = None"
| "lazy_group acc (c # cs) =
     (case match_suffix (c # cs) of
        Some m \<Rightarrow> Some acc
      | None \<Rightarrow> if c = newline then None else lazy_group (acc @ [c]) cs)"

definition get_base_filename :: "string \<Rightarrow> string option" where
  "get_base_filename input_filename =
     (case input_filename of
        [] \<Rightarrow> None
      | c # cs \<Rightarrow> if c = newline then None else lazy_group [c] cs)"

text \<open>
  \<^verbatim>\<open>re.sub\<close> replaces every non-overlapping match, scanning from the left. A match ends
  at \<^verbatim>\<open>$\<close>, so after the first one at most a newline is left and no second match exists:
  the result is the text before the match, \<^verbatim>\<open>.pdf\<close>, and the text after it.
\<close>

definition get_output_filename :: "string \<Rightarrow> string" where
  "get_output_filename input_filename =
     (case re_search_suffix [] input_filename of
        Some (pre, ds, rest) \<Rightarrow> pre @ ''.pdf'' @ rest
      | None \<Rightarrow> input_filename)"

subsection \<open>Images\<close>

text \<open>
  A decoded PIL image, reduced to what the pipeline reads: \<^verbatim>\<open>img.size\<close> and
  \<^verbatim>\<open>img.mode\<close>. \<^verbatim>\<open>img.crop((left, upper, right, lower))\<close> returns an image of size
  \<^verbatim>\<open>(right - left, lower - upper)\<close> in the same mode; \<^verbatim>\<open>img.convert('RGB')\<close> keeps the
  size.
\<close>

record image =
  width :: int
  height :: int
  mode :: string

type_synonym box = "int \<times> int \<times> int \<times> int"

definition crop :: "image \<Rightarrow> box \<Rightarrow> image" where
  "crop img b = (case b of (left, upper, right, lower) \<Rightarrow>
     \<lparr>width = right - left, height = lower - upper, mode = mode img\<rparr>)"

definition convert_RGB :: "image \<Rightarrow> image" where
  "convert_RGB img = img\<lparr>mode := ''RGB''\<rparr>"

subsection \<open>The file system, PIL and the log queue\<close>

text \<open>
  The world the pipeline acts on. A path names a directory, with the names
  \<^verbatim>\<open>os.listdir\<close> returns for it in that order, or a regular file, given by the frames
  PIL decodes from it (none for a file that is not an image, one for an image file, one
  per page for a document saved with \<^verbatim>\<open>save_all\<close>). Paths are compared as strings.
  \<open>fault\<close> lets any call to the operating system or to PIL fail for a reason the file
  map does not show (permissions, a full disk, a truncated file, an unknown extension).
  \<open>log_queue\<close> is \<^verbatim>\<open>self.log_queue\<close>, with one constructor per message template of the
  source.
\<close>

datatype node = Dir "string list" | File "image list"

datatype call =
    Call_makedirs string
  | Call_listdir string
  | Call_open string
  | Call_save string

datatype msg =
    Msg_not_a_folder string
  | Msg_none_found string
  | Msg_format_hint
  | Msg_found nat
  | Msg_skip_no_page_count string
  | Msg_processing string int
  | Msg_skip_no_base string
  | Msg_cutting
  | Msg_cut_into nat
  | Msg_saving
  | Msg_saved nat
  | Msg_generating string
  | Msg_done string
  | Msg_file_error string exn
  | Msg_summary nat nat
  | Msg_thread_error exn

record world =
  fs :: "string \<Rightarrow> node option"
  fault :: "call \<Rightarrow> exn option"
  log_queue :: "msg list"

definition appendLog :: "msg \<Rightarrow> world \<Rightarrow> world" where
  "appendLog message w = w\<lparr>log_queue := log_queue w @ [message]\<rparr>"

text \<open>\<^verbatim>\<open>os.path.join(a, b)\<close>, \<^verbatim>\<open>os.path.dirname\<close> and \<^verbatim>\<open>os.path.basename\<close> of \<^verbatim>\<open>posixpath\<close>.\<close>

definition join :: "string \<Rightarrow> string \<Rightarrow> string" where
  "join a b =
     (if b \<noteq> [] \<and> hd b = CHR ''/'' then b
      else if a = [] \<or> last a = CHR ''/'' then a @ b
      else a @ ''/'' @ b)"

definition rstrip_slash :: "string \<Rightarrow> string" where
  "rstrip_slash p = rev (dropWhile (\<lambda>c. c = CHR ''/'') (rev p))"

definition dirname :: "string \<Rightarrow> string" where
  "dirname p =
     (let head = rev (dropWhile (\<lambda>c. c \<noteq> CHR ''/'') (rev p)) in
      if head \<noteq> [] \<and> \<not> list_all (\<lambda>c. c = CHR ''/'') head then rstrip_slash head else head)"

definition basename :: "string \<Rightarrow> string" where
  "basename p = rev (takeWhile (\<lambda>c. c \<noteq> CHR ''/'') (rev p))"

definition os_path_isdir :: "world \<Rightarrow> string \<Rightarrow> bool" where
  "os_path_isdir w p = (case fs w p of Some (Dir es) \<Rightarrow> True | _ \<Rightarrow> False)"

text \<open>A new file or directory shows up in the listing of its parent directory.\<close>

definition add_entry :: "string \<Rightarrow> (string \<Rightarrow> node option) \<Rightarrow> (string \<Rightarrow> node option)" where
  "add_entry p m =
     (case m (dirname p) of
        Some (Dir es) \<Rightarrow>
          if basename p \<in> set es then m else m(dirname p \<mapsto> Dir (es @ [basename p]))
      | _ \<Rightarrow> m)"

text \<open>
  \<^verbatim>\<open>os.makedirs(p, exist_ok=True)\<close>: nothing to do for a directory, \<^verbatim>\<open>FileExistsError\<close>
  for a regular file, and a new empty directory otherwise (missing parents are created
  with it and are not tracked).
\<close>

definition os_makedirs :: "string \<Rightarrow> world \<Rightarrow> unit res \<times> world" where
  "os_makedirs p w =
     (case fault w (Call_makedirs p) of
        Some e \<Rightarrow> (Raise e, w)
      | None \<Rightarrow>
          (case fs w p of
             Some (Dir es) \<Rightarrow> (Return (), w)
           | Some (File fr) \<Rightarrow> (Raise FileExistsError, w)
           | None \<Rightarrow> (Return (), w\<lparr>fs := add_entry p ((fs w)(p \<mapsto> Dir []))\<rparr>)))"

definition os_listdir :: "world \<Rightarrow> string \<Rightarrow> string list res" where
  "os_listdir w p =
     (case fault w (Call_listdir p) of
        Some e \<Rightarrow> Raise e
      | None \<Rightarrow>
          (case fs w p of
             Some (Dir es) \<Rightarrow> Return es
           | Some (File fr) \<Rightarrow> Raise NotADirectoryError
           | None \<Rightarrow> Raise FileNotFoundError))"

text \<open>\<^verbatim>\<open>Image.open(p)\<close>: the first frame of an image file.\<close>

definition Image_open :: "world \<Rightarrow> string \<Rightarrow> image res" where
  "Image_open w p =
     (case fault w (Call_open p) of
        Some e \<Rightarrow> Raise e
      | None \<Rightarrow>
          (case fs w p of
             Some (File (img # frs)) \<Rightarrow> Return img
           | Some (File []) \<Rightarrow> Raise UnidentifiedImageError
           | Some (Dir es) \<Rightarrow> Raise IsADirectoryError
           | None \<Rightarrow> Raise FileNotFoundError))"

text \<open>
  \<^verbatim>\<open>first.save(p, ...)\<close> writing the frames \<open>frames\<close>: the file is created or
  overwritten; its directory must exist (the current directory, for a path without a
  slash, always does) and \<open>p\<close> must not be a directory. Nothing creates a directory here.
\<close>

definition Image_save :: "image list \<Rightarrow> string \<Rightarrow> world \<Rightarrow> unit res \<times> world" where
  "Image_save frames p w =
     (case fault w (Call_save p) of
        Some e \<Rightarrow> (Raise e, w)
      | None \<Rightarrow>
          if os_path_isdir w p then (Raise IsADirectoryError, w)
          else if dirname p \<noteq> [] \<and> \<not> os_path_isdir w (dirname p) then (Raise FileNotFoundError, w)
          else (Return (), w\<lparr>fs := add_entry p ((fs w)(p \<mapsto> File frames))\<rparr>))"

subsection \<open>cut_image_vertically\<close>

text \<open>
  The box of part \<open>i\<close>: \<^verbatim>\<open>top = i * part_height\<close>,
  \<^verbatim>\<open>bottom = (i + 1) * part_height if i < num_parts - 1 else height\<close>.
\<close>

definition cut_box :: "image \<Rightarrow> int \<Rightarrow> int \<Rightarrow> int \<Rightarrow> box" where
  "cut_box img num_parts part_height i =
     (let top = i * part_height;
          bottom = (if i < num_parts - 1 then (i + 1) * part_height else height img)
      in (0, top, width img, bottom))"

text \<open>
  \<^verbatim>\<open>range(num_parts)\<close> is \<open>[0..num_parts - 1]\<close>, empty when \<open>num_parts \<le> 0\<close>; the division
  comes before the loop and raises for \<open>num_parts = 0\<close>.
\<close>

definition cut_image_vertically :: "world \<Rightarrow> string \<Rightarrow> int \<Rightarrow> image list res" where
  "cut_image_vertically w image_path num_parts =
     (case Image_open w image_path of
        Raise e \<Rightarrow> Raise e
      | Return img \<Rightarrow>
          if num_parts = 0 then Raise ZeroDivisionError
          else
            let part_height = height img div num_parts in
            Return (map (\<lambda>i. crop img (cut_box img num_parts part_height i)) [0..num_parts - 1]))"

subsection \<open>save_cut_images\<close>

text \<open>\<^verbatim>\<open>str(i)\<close> for the index of the f-string.\<close>

definition digit_char :: "nat \<Rightarrow> char" where
  "digit_char d = ''0123456789'' ! d"

fun str_nat :: "nat \<Rightarrow> string" where
  "str_nat n =
     (if n < 10 then [digit_char n]
      else str_nat (n div 10) @ [digit_char (n mod 10)])"

declare str_nat.simps [simp del]

text \<open>
  The f-string \<^verbatim>\<open>{base_filename}-[di]{i}[ye].png\<close>, where \<^verbatim>\<open>[di]\<close> is U+7B2C and \<^verbatim>\<open>[ye]\<close>
  is U+9875, in UTF-8.
\<close>

definition strip_name :: "string \<Rightarrow> nat \<Rightarrow> string" where
  "strip_name base_filename i =
     base_filename @ ''-'' @ [CHR 0xE7, CHR 0xAC, CHR 0xAC] @ str_nat i
       @ [CHR 0xE9, CHR 0xA1, CHR 0xB5] @ ''.png''"

fun save_loop ::
  "(nat \<times> image) list \<Rightarrow> string \<Rightarrow> string \<Rightarrow> string list \<Rightarrow> world \<Rightarrow> string list res \<times> world"
where
  "save_loop [] base_filename output_folder saved_paths w = (Return saved_paths, w)"
| "save_loop ((i, img) # rest) base_filename output_folder saved_paths w =
     (let output_path = join output_folder (strip_name base_filename i) in
      case Image_save [img] output_path w of
        (Raise e, w') \<Rightarrow> (Raise e, w')
      | (Return u, w') \<Rightarrow>
          save_loop rest base_filename output_folder (saved_paths @ [output_path]) w')"

definition save_cut_images ::
  "image list \<Rightarrow> string \<Rightarrow> string \<Rightarrow> world \<Rightarrow> string list res \<times> world"
where
  "save_cut_images images base_filename output_folder w =
     save_loop (enumerate 1 images) base_filename output_folder [] w"

subsection \<open>images_to_pdf\<close>

definition images_to_pdf :: "image list \<Rightarrow> string \<Rightarrow> world \<Rightarrow> unit res \<times> world" where
  "images_to_pdf images output_path w =
     (if images = [] then (Return (), w)
      else
        let rgb_images = map (\<lambda>img. if mode img \<noteq> ''RGB'' then convert_RGB img else img) images in
        if length rgb_images > 1
        then Image_save (rgb_images ! 0 # drop 1 rgb_images) output_path w
        else Image_save [rgb_images ! 0] output_path w)"

subsection \<open>process_folder\<close>

text \<open>
  The discovery filter \<^verbatim>\<open>re.search(r'-\d+\.(png|jpg|jpeg|PNG|JPG|JPEG)$', f)\<close>: the pattern
  of \<^verbatim>\<open>extract_page_count\<close> without its group.
\<close>

definition is_image_file :: "string \<Rightarrow> bool" where
  "is_image_file f \<longleftrightarrow> re_search_suffix [] f \<noteq> None"

text \<open>
  The body of the \<^verbatim>\<open>try\<close> for one file. \<open>Return False\<close> is a \<^verbatim>\<open>continue\<close> (the file
  is skipped), \<open>Return True\<close> is the end of the body, where \<^verbatim>\<open>success_count\<close> has been
  incremented, and \<open>Raise e\<close> is an exception on its way to the handler. Messages
  already queued and files already written stay.
\<close>

definition process_file :: "string \<Rightarrow> string \<Rightarrow> string \<Rightarrow> world \<Rightarrow> bool res \<times> world" where
  "process_file folder_path output_folder filename w =
     (case extract_page_count filename of
        None \<Rightarrow> (Return False, appendLog (Msg_skip_no_page_count filename) w)
      | Some page_count \<Rightarrow>
          let w1 = appendLog (Msg_processing filename page_count) w;
              input_path = join folder_path filename
          in
          (case get_base_filename filename of
             None \<Rightarrow> (Return False, appendLog (Msg_skip_no_base filename) w1)
           | Some base_filename \<Rightarrow>
               let w2 = appendLog Msg_cutting w1 in
               (case cut_image_vertically w2 input_path page_count of
                  Raise e \<Rightarrow> (Raise e, w2)
                | Return images \<Rightarrow>
                    let w3 = appendLog (Msg_cut_into (length images)) w2;
                        w4 = appendLog Msg_saving w3
                    in
                    (case save_cut_images images base_filename output_folder w4 of
                       (Raise e, w5) \<Rightarrow> (Raise e, w5)
                     | (Return saved_paths, w5) \<Rightarrow>
                         let w6 = appendLog (Msg_saved (length saved_paths)) w5;
                             output_filename = get_output_filename filename;
                             output_path = join output_folder output_filename;
                             w7 = appendLog (Msg_generating output_filename) w6
                         in
                         (case images_to_pdf images output_path w7 of
                            (Raise e, w8) \<Rightarrow> (Raise e, w8)
                          | (Return u, w8) \<Rightarrow>
                              (Return True, appendLog (Msg_done output_filename) w8))))))"

text \<open>
  The \<^verbatim>\<open>for\<close> loop with its \<^verbatim>\<open>try ... except Exception\<close>; the counters are
  \<^verbatim>\<open>(success_count, error_count)\<close>.
\<close>

fun process_files ::
  "string \<Rightarrow> string \<Rightarrow> string list \<Rightarrow> nat \<times> nat \<Rightarrow> world \<Rightarrow> (nat \<times> nat) \<times> world"
where
  "process_files folder_path output_folder [] counts w = (counts, w)"
| "process_files folder_path output_folder (filename # rest) counts w =
     (case process_file folder_path output_folder filename w of
        (Return False, w') \<Rightarrow> process_files folder_path output_folder rest counts w'
      | (Return True, w') \<Rightarrow>
          process_files folder_path output_folder rest (fst counts + 1, snd counts) w'
      | (Raise e, w') \<Rightarrow>
          process_files folder_path output_folder rest (fst counts, snd counts + 1)
            (appendLog (Msg_file_error filename e) w'))"

text \<open>What \<^verbatim>\<open>process_folder\<close> does with the listing, once it has it.\<close>

definition process_listing :: "string \<Rightarrow> string \<Rightarrow> string list \<Rightarrow> world \<Rightarrow> bool res \<times> world" where
  "process_listing folder_path output_folder files w =
     (let image_files = filter is_image_file files in
      if image_files = []
      then (Return False, appendLog Msg_format_hint (appendLog (Msg_none_found folder_path) w))
      else
        let w1 = appendLog (Msg_found (length image_files)) w in
        (case process_files folder_path output_folder image_files (0, 0) w1 of
           ((success_count, error_count), w2) \<Rightarrow>
             (Return True, appendLog (Msg_summary success_count error_count) w2)))"

definition process_folder :: "string \<Rightarrow> string \<Rightarrow> world \<Rightarrow> bool res \<times> world" where
  "process_folder folder_path output_folder w =
     (if \<not> os_path_isdir w folder_path
      then (Return False, appendLog (Msg_not_a_folder folder_path) w)
      else
        (case os_makedirs output_folder w of
           (Raise e, w1) \<Rightarrow> (Raise e, w1)
         | (Return u, w1) \<Rightarrow>
             (case os_listdir w1 folder_path of
                Raise e \<Rightarrow> (Raise e, w1)
              | Return files \<Rightarrow> process_listing folder_path output_folder files w1)))"

text \<open>
  The caller: \<^verbatim>\<open>process_thread\<close> in \<^verbatim>\<open>startProcessing_\<close> passes the boolean on, or
  \<open>False\<close> after an exception, and \<^verbatim>\<open>updateUIAfterProcessing_\<close> picks the alert.
\<close>

definition process_thread :: "string \<Rightarrow> string \<Rightarrow> world \<Rightarrow> bool \<times> world" where
  "process_thread input_path output_path w =
     (case process_folder input_path output_path w of
        (Return success, w') \<Rightarrow> (success, w')
      | (Raise e, w') \<Rightarrow> (False, appendLog (Msg_thread_error e) w'))"

datatype alert = Alert_all_done | Alert_problems

definition updateUIAfterProcessing :: "bool \<Rightarrow> alert" where
  "updateUIAfterProcessing success = (if success then Alert_all_done else Alert_problems)"

subsection \<open>The suffix pattern in the words of the specification\<close>

text \<open>
  The specification describes the names the codec accepts as \<^verbatim>\<open><base>-<digits>.<ext>\<close>,
  with \<^verbatim>\<open><ext>\<close> any case variant of \<^verbatim>\<open>png\<close>, \<^verbatim>\<open>jpg\<close> or \<^verbatim>\<open>jpeg\<close>, the pattern being
  anchored at the end of the name. \<open>spec_pattern\<close> says this, independently of the
  matcher above.
\<close>

definition lower_char :: "char \<Rightarrow> char" where
  "lower_char c =
     (case map_of (zip ''ABCDEFGHIJKLMNOPQRSTUVWXYZ'' ''abcdefghijklmnopqrstuvwxyz'') c of
        Some l \<Rightarrow> l
      | None \<Rightarrow> c)"

definition spec_extension :: "string \<Rightarrow> bool" where
  "spec_extension e \<longleftrightarrow> map lower_char e \<in> {''png'', ''jpg'', ''jpeg''}"


subsection \<open>When a write succeeds\<close>

text \<open>
  \<open>save_ok w p\<close>: in the world \<open>w\<close> nothing makes a \<^verbatim>\<open>save\<close> to \<open>p\<close> fail: no fault, \<open>p\<close>
  is not a directory, and the directory of \<open>p\<close> exists.
\<close>

definition save_ok :: "world \<Rightarrow> string \<Rightarrow> bool" where
  "save_ok w p \<longleftrightarrow>
     fault w (Call_save p) = None \<and> \<not> os_path_isdir w p
     \<and> (dirname p = [] \<or> os_path_isdir w (dirname p))"

text \<open>The paths of the strips \<open>1, ..., n\<close> of a base name in a directory.\<close>

definition strip_paths :: "string \<Rightarrow> string \<Rightarrow> nat \<Rightarrow> string list" where
  "strip_paths base_filename output_folder n =
     map (\<lambda>i. join output_folder (strip_name base_filename i)) [1..<Suc n]"

text \<open>The page \<^verbatim>\<open>images_to_pdf\<close> makes of an image.\<close>

definition rgb_page :: "image \<Rightarrow> image" where
  "rgb_page img = (if mode img \<noteq> ''RGB'' then convert_RGB img else img)"

subsection \<open>Example worlds\<close>

text \<open>
  A directory \<^verbatim>\<open>in\<close> with a 40 x 10 image \<^verbatim>\<open>report-3.png\<close> and a file \<^verbatim>\<open>notes.png\<close>
  without a page count; no directory \<^verbatim>\<open>out\<close> yet.
\<close>

definition example_image :: image where
  "example_image = \<lparr>width = 40, height = 10, mode = ''RGBA''\<rparr>"

definition example_world :: world where
  "example_world =
     \<lparr>fs = Map.empty(''in'' \<mapsto> Dir [''report-3.png'', ''notes.png''],
                      ''in/report-3.png'' \<mapsto> File [example_image]),
      fault = (\<lambda>c. None),
      log_queue = []\<rparr>"

text \<open>A directory \<^verbatim>\<open>in\<close> that only holds \<^verbatim>\<open>notes.png\<close>.\<close>

definition no_match_world :: world where
  "no_match_world =
     \<lparr>fs = Map.empty(''in'' \<mapsto> Dir [''notes.png''], ''in/notes.png'' \<mapsto> File [example_image]),
      fault = (\<lambda>c. None),
      log_queue = []\<rparr>"

text \<open>A directory \<^verbatim>\<open>in\<close> whose only candidate \<^verbatim>\<open>bad-2.png\<close> is not an image.\<close>

definition failing_world :: world where
  "failing_world =
     \<lparr>fs = Map.empty(''in'' \<mapsto> Dir [''bad-2.png''], ''in/bad-2.png'' \<mapsto> File []),
      fault = (\<lambda>c. None),
      log_queue = []\<rparr>"

section \<open>Properties\<close>

subsection \<open>The slicer\<close>

lemma crop_cut_box_width:
  "width (crop img (cut_box img n ph i)) = width img"
  by (simp add: crop_def cut_box_def Let_def)

lemma crop_cut_box_height:
  "height (crop img (cut_box img n ph i)) =
     (if i < n - 1 then ph else height img - i * ph)"
  by (simp add: crop_def cut_box_def Let_def algebra_simps)

lemma cut_heights:
  assumes "1 \<le> n"
  shows "map (\<lambda>i. height (crop img (cut_box img n ph i))) [0..n - 1] =
           replicate (nat (n - 1)) ph @ [height img - (n - 1) * ph]"
proof -
  have split: "[0..n - 1] = [0..n - 2] @ [n - 1]"
    using assms upto_rec2 [of 0 "n - 1"] by simp
  have "map (\<lambda>i. height (crop img (cut_box img n ph i))) [0..n - 2] = map (\<lambda>i. ph) [0..n - 2]"
    by (rule map_cong) (auto simp: crop_cut_box_height)
  also have "\<dots> = replicate (nat (n - 1)) ph"
    by (simp add: map_replicate_const)
  finally show ?thesis
    by (simp add: split crop_cut_box_height)
qed

lemma cut_image_vertically_opened:
  "Image_open w p = Return img \<Longrightarrow> n \<noteq> 0 \<Longrightarrow>
   cut_image_vertically w p n =
     Return (map (\<lambda>i. crop img (cut_box img n (height img div n) i)) [0..n - 1])"
  by (simp add: cut_image_vertically_def)

text \<open>
  C1. For an image that opens and \<open>num_parts \<ge> 1\<close>, \<^verbatim>\<open>cut_image_vertically\<close> returns
  exactly \<open>num_parts\<close> strips, each as wide as the image; every strip but the last has
  height \<open>height div num_parts\<close>, the last one has
  \<open>height - (num_parts - 1) * (height div num_parts)\<close>, the heights add up to the height
  of the image, and for \<open>num_parts = 1\<close> the single strip has the size of the image.
  Strip \<open>k\<close> is the crop of box \<open>k\<close>; the boxes start at row 0, each one starts where
  the one before ends, and the last one ends at the last row.
\<close>

theorem cut_image_vertically_strips:
  assumes opened: "Image_open w image_path = Return img"
    and parts: "1 \<le> num_parts"
  shows "\<exists>strips.
      cut_image_vertically w image_path num_parts = Return strips
    \<and> int (length strips) = num_parts
    \<and> (\<forall>s \<in> set strips. width s = width img)
    \<and> (\<forall>i < length strips - 1. height (strips ! i) = height img div num_parts)
    \<and> height (last strips) = height img - (num_parts - 1) * (height img div num_parts)
    \<and> sum_list (map height strips) = height img
    \<and> (num_parts = 1 \<longrightarrow>
          map (\<lambda>s. (width s, height s)) strips = [(width img, height img)])
    \<and> (\<forall>k < length strips.
          strips ! k = crop img (cut_box img num_parts (height img div num_parts) (int k)))
    \<and> fst (snd (cut_box img num_parts (height img div num_parts) 0)) = 0
    \<and> (\<forall>i. 0 \<le> i \<and> i < num_parts - 1 \<longrightarrow>
          snd (snd (snd (cut_box img num_parts (height img div num_parts) i))) =
          fst (snd (cut_box img num_parts (height img div num_parts) (i + 1))))
    \<and> snd (snd (snd (cut_box img num_parts (height img div num_parts) (num_parts - 1)))) =
          height img"
proof -
  define ph where "ph = height img div num_parts"
  define strips where "strips = map (\<lambda>i. crop img (cut_box img num_parts ph i)) [0..num_parts - 1]"
  have heights: "map height strips = replicate (nat (num_parts - 1)) ph @ [height img - (num_parts - 1) * ph]"
    using cut_heights [OF parts, of img ph] by (simp add: strips_def comp_def)
  have len: "length strips = nat num_parts"
    by (simp add: strips_def)
  have ne: "strips \<noteq> []"
    using len parts by auto
  have run: "cut_image_vertically w image_path num_parts = Return strips"
    using cut_image_vertically_opened [OF opened, of num_parts] parts
    by (simp add: strips_def ph_def)
  have widths: "\<forall>s \<in> set strips. width s = width img"
    by (auto simp: strips_def crop_cut_box_width)
  have inner: "\<forall>i < length strips - 1. height (strips ! i) = ph"
  proof (intro allI impI)
    fix i assume i: "i < length strips - 1"
    then have "height (strips ! i) = map height strips ! i"
      by simp
    also have "\<dots> = ph"
    proof -
      have "nat (num_parts - 1) = nat num_parts - 1"
        using parts by simp
      then show ?thesis
        using i len by (simp add: heights nth_append)
    qed
    finally show "height (strips ! i) = ph" .
  qed
  have "height (last strips) = last (map height strips)"
    using ne by (simp add: last_map)
  then have lastheight: "height (last strips) = height img - (num_parts - 1) * ph"
    by (simp add: heights)
  have total: "sum_list (map height strips) = height img"
    using parts by (simp add: heights sum_list_replicate)
  have one: "num_parts = 1 \<longrightarrow> map (\<lambda>s. (width s, height s)) strips = [(width img, height img)]"
    by (simp add: strips_def crop_cut_box_width crop_cut_box_height)
  have nth: "\<forall>k < length strips. strips ! k = crop img (cut_box img num_parts ph (int k))"
  proof (intro allI impI)
    fix k assume "k < length strips"
    with len have k: "int k \<le> num_parts - 1" by simp
    then have "[0..num_parts - 1] ! k = int k"
      using nth_upto [of 0 k "num_parts - 1"] by simp
    with k len \<open>k < length strips\<close> show "strips ! k = crop img (cut_box img num_parts ph (int k))"
      by (simp add: strips_def)
  qed
  have boxes: "fst (snd (cut_box img num_parts ph 0)) = 0"
    "\<forall>i. 0 \<le> i \<and> i < num_parts - 1 \<longrightarrow>
          snd (snd (snd (cut_box img num_parts ph i))) = fst (snd (cut_box img num_parts ph (i + 1)))"
    "snd (snd (snd (cut_box img num_parts ph (num_parts - 1)))) = height img"
    by (simp_all add: cut_box_def Let_def)
  show ?thesis
    using run len parts widths inner lastheight total one nth boxes
    unfolding ph_def by (intro exI [of _ strips]) simp
qed

lemma example_open:
  "Image_open example_world ''in/report-3.png'' = Return example_image"
  by (simp add: Image_open_def example_world_def)

text \<open>The 40 x 10 example image cut in three: heights 3, 3 and 4.\<close>

theorem cut_image_vertically_strips_witness:
  "Image_open example_world ''in/report-3.png'' = Return example_image \<and> (1::int) \<le> 3
   \<and> (\<exists>strips. cut_image_vertically example_world ''in/report-3.png'' 3 = Return strips
        \<and> length strips = 3
        \<and> map height strips = [3, 3, 4]
        \<and> sum_list (map height strips) = height example_image)"
proof -
  have two: "Suc (Suc 0) = 2" by simp
  obtain strips where
    s: "cut_image_vertically example_world ''in/report-3.png'' 3 = Return strips"
      "int (length strips) = 3"
      "\<forall>i < length strips - 1. height (strips ! i) = height example_image div 3"
      "height (last strips) = height example_image - (3 - 1) * (height example_image div 3)"
      "sum_list (map height strips) = height example_image"
    using cut_image_vertically_strips [OF example_open, of 3] by auto
  from s(2) have len: "length strips = 3" by simp
  then obtain a b c where abc: "strips = [a, b, c]"
    by (cases strips; cases "tl strips"; cases "tl (tl strips)") auto
  have "height a = 3"
    using s(3) [rule_format, of 0] by (simp add: abc example_image_def)
  moreover have "height b = 3"
    using s(3) [rule_format, of 1] by (simp add: abc example_image_def)
  moreover have "height c = 4"
    using s(4) by (simp add: abc example_image_def)
  ultimately show ?thesis
    using s(1) s(5) example_open by (simp add: abc)
qed

text \<open>
  C6 as stated asks for a failure whenever \<open>num_parts < 1\<close>. For a negative
  \<open>num_parts\<close> the range of the loop is empty and the function returns no strips.
\<close>

theorem cut_image_vertically_negative_counterexample:
  "(- 1 :: int) < 1 \<and> cut_image_vertically example_world ''in/report-3.png'' (- 1) = Return []"
  by (simp add: cut_image_vertically_def example_open)

text \<open>
  C6, amended. For \<open>num_parts < 1\<close>: the error of \<^verbatim>\<open>Image.open\<close> if the image does not
  open; otherwise \<^verbatim>\<open>ZeroDivisionError\<close> for \<open>num_parts = 0\<close>, and an empty list of strips,
  without any failure, for \<open>num_parts < 0\<close>.
\<close>

theorem cut_image_vertically_below_one:
  assumes "num_parts < 1"
  shows "cut_image_vertically w image_path num_parts =
           (case Image_open w image_path of
              Raise e \<Rightarrow> Raise e
            | Return img \<Rightarrow> if num_parts = 0 then Raise ZeroDivisionError else Return [])"
  using assms by (simp add: cut_image_vertically_def split: res.splits)

text \<open>The example image with \<open>num_parts = 0\<close>.\<close>

theorem cut_image_vertically_below_one_witness:
  "(0::int) < 1 \<and> cut_image_vertically example_world ''in/report-3.png'' 0 = Raise ZeroDivisionError"
  using cut_image_vertically_below_one [of 0 example_world "''in/report-3.png''"]
  by (simp add: example_open)

subsection \<open>The file name functions\<close>

text \<open>What a match of the suffix pattern looks like, and where the searches find it.\<close>

lemma is_digit_not_special:
  "is_digit c \<Longrightarrow> c \<noteq> CHR ''-'' \<and> c \<noteq> CHR ''.'' \<and> c \<noteq> newline"
  by (auto simp: is_digit_def newline_def)

lemma extension_chars:
  "e \<in> set extensions \<Longrightarrow> CHR ''-'' \<notin> set e \<and> newline \<notin> set e \<and> e \<noteq> []"
  by (auto simp: extensions_def newline_def)

lemma at_dollar_chars: "at_dollar rest \<Longrightarrow> CHR ''-'' \<notin> set rest"
  by (auto simp: at_dollar_def newline_def)

lemma match_ext_sound:
  "match_ext es r = Some rest \<Longrightarrow> \<exists>e \<in> set es. r = e @ rest \<and> at_dollar rest"
proof (induction es)
  case Nil
  then show ?case by simp
next
  case (Cons e es)
  show ?case
  proof (cases "take (length e) r = e \<and> at_dollar (drop (length e) r)")
    case True
    with Cons.prems have rest: "rest = drop (length e) r" by simp
    have "r = take (length e) r @ drop (length e) r" by simp
    with True rest have "r = e @ rest" by simp
    moreover from True rest have "at_dollar rest" by simp
    ultimately show ?thesis by auto
  next
    case False
    with Cons show ?thesis by auto
  qed
qed

lemma match_ext_complete:
  assumes "e \<in> set extensions" "at_dollar rest"
  shows "match_ext extensions (e @ rest) = Some rest"
proof -
  from assms(1) have e: "e = ''png'' \<or> e = ''jpg'' \<or> e = ''jpeg'' \<or> e = ''PNG'' \<or> e = ''JPG'' \<or> e = ''JPEG''"
    by (simp add: extensions_def)
  from assms(2) have r: "rest = [] \<or> rest = [newline]"
    by (simp add: at_dollar_def)
  from r show ?thesis
  proof
    assume "rest = []"
    with e show ?thesis
      by (elim disjE) (simp_all add: extensions_def at_dollar_def)
  next
    assume "rest = [newline]"
    with e show ?thesis
      by (elim disjE) (simp_all add: extensions_def at_dollar_def newline_def)
  qed
qed

lemma match_suffix_sound:
  assumes "match_suffix r = Some (ds, rest)"
  shows "\<exists>e \<in> set extensions.
           r = CHR ''-'' # ds @ CHR ''.'' # e @ rest
         \<and> ds \<noteq> [] \<and> (\<forall>c \<in> set ds. is_digit c) \<and> at_dollar rest"
proof -
  from assms obtain r1 where r: "r = CHR ''-'' # r1"
    by (auto simp: match_suffix_def split: list.splits if_splits)
  from assms r have ds: "ds = takeWhile is_digit r1" "ds \<noteq> []"
    by (auto simp: match_suffix_def Let_def split: list.splits if_splits option.splits)
  from assms r obtain r3 where
    r3: "dropWhile is_digit r1 = CHR ''.'' # r3" "match_ext extensions r3 = Some rest"
    by (auto simp: match_suffix_def Let_def split: list.splits if_splits option.splits)
  from match_ext_sound [OF r3(2)] obtain e where
    e: "e \<in> set extensions" "r3 = e @ rest" "at_dollar rest" by blast
  have "r1 = ds @ CHR ''.'' # r3"
    using takeWhile_dropWhile_id [of is_digit r1] by (simp add: ds r3)
  moreover have "\<forall>c \<in> set ds. is_digit c"
    unfolding ds by (auto dest: set_takeWhileD)
  ultimately show ?thesis
    using r e ds by auto
qed

lemma match_suffix_complete:
  assumes "e \<in> set extensions" "ds \<noteq> []" "\<forall>c \<in> set ds. is_digit c" "at_dollar rest"
  shows "match_suffix (CHR ''-'' # ds @ CHR ''.'' # e @ rest) = Some (ds, rest)"
proof -
  have nd: "\<not> is_digit CHR ''.''"
    by (simp add: is_digit_def)
  have t: "takeWhile is_digit (ds @ CHR ''.'' # e @ rest) = ds"
    using assms(3) nd by (simp add: takeWhile_append2)
  have d: "dropWhile is_digit (ds @ CHR ''.'' # e @ rest) = CHR ''.'' # e @ rest"
    using assms(3) nd by (simp add: dropWhile_append2)
  show ?thesis
    using assms(2) match_ext_complete [OF assms(1,4)]
    by (simp add: match_suffix_def t d)
qed

lemma match_suffix_dash:
  assumes "match_suffix r = Some m"
  shows "\<exists>r'. r = CHR ''-'' # r' \<and> CHR ''-'' \<notin> set r'"
proof -
  obtain ds rest where "m = (ds, rest)" by (cases m)
  with match_suffix_sound [of r ds rest] assms obtain e where
    e: "e \<in> set extensions" "r = CHR ''-'' # ds @ CHR ''.'' # e @ rest"
       "\<forall>c \<in> set ds. is_digit c" "at_dollar rest"
    by blast
  have "CHR ''-'' \<notin> set (ds @ CHR ''.'' # e @ rest)"
    using e(1,3,4) extension_chars [OF e(1)] at_dollar_chars [OF e(4)]
    by (auto dest: is_digit_not_special)
  with e(2) show ?thesis by blast
qed

lemma match_suffix_not_inside:
  assumes "match_suffix r = Some m"
  shows "match_suffix (c # p @ r) = None"
proof (rule ccontr)
  assume "match_suffix (c # p @ r) \<noteq> None"
  then obtain m' where "match_suffix (c # p @ r) = Some m'" by auto
  from match_suffix_dash [OF this] have "CHR ''-'' \<notin> set (p @ r)" by auto
  moreover from match_suffix_dash [OF assms] have "CHR ''-'' \<in> set r" by auto
  ultimately show False by simp
qed

lemma re_search_suffix_found:
  assumes "match_suffix r = Some (ds, rest)"
  shows "re_search_suffix pre (p @ r) = Some (pre @ p, ds, rest)"
proof (induction p arbitrary: pre)
  case Nil
  from match_suffix_dash [OF assms] obtain r' where "r = CHR ''-'' # r'" by blast
  with assms show ?case by simp
next
  case (Cons c p)
  have "match_suffix (c # p @ r) = None"
    by (rule match_suffix_not_inside [OF assms])
  then show ?case
    using Cons.IH [of "pre @ [c]"] by simp
qed

lemma lazy_group_found:
  assumes "match_suffix r = Some m" "newline \<notin> set p"
  shows "lazy_group acc (p @ r) = Some (acc @ p)"
  using assms(2)
proof (induction p arbitrary: acc)
  case Nil
  from match_suffix_dash [OF assms(1)] obtain r' where "r = CHR ''-'' # r'" by blast
  with assms(1) show ?case by simp
next
  case (Cons c p)
  have "match_suffix (c # p @ r) = None"
    by (rule match_suffix_not_inside [OF assms(1)])
  moreover from Cons.prems have "c \<noteq> newline" "newline \<notin> set p" by auto
  ultimately show ?case
    using Cons.IH [of "acc @ [c]"] by simp
qed

lemma lazy_group_newline:
  assumes "match_suffix r = Some m" "newline \<in> set p"
  shows "lazy_group acc (p @ r) = None"
  using assms(2)
proof (induction p arbitrary: acc)
  case Nil
  then show ?case by simp
next
  case (Cons c p)
  have "match_suffix (c # p @ r) = None"
    by (rule match_suffix_not_inside [OF assms(1)])
  then show ?case
    using Cons.IH [of "acc @ [c]"] Cons.prems by auto
qed

lemma lazy_group_no_dash:
  "CHR ''-'' \<notin> set r \<Longrightarrow> lazy_group acc r = None"
proof (induction r arbitrary: acc)
  case Nil
  then show ?case by simp
next
  case (Cons c r)
  have "match_suffix (c # r) = None"
    using Cons.prems by (auto simp: match_suffix_def)
  then show ?case using Cons by simp
qed

lemma get_base_filename_found:
  assumes "match_suffix r = Some m" "base \<noteq> []" "newline \<notin> set base"
  shows "get_base_filename (base @ r) = Some base"
proof -
  from assms(2) obtain c p where base: "base = c # p" by (cases base) auto
  with assms(3) have "c \<noteq> newline" "newline \<notin> set p" by auto
  then show ?thesis
    using lazy_group_found [OF assms(1), of p "[c]"] by (simp add: get_base_filename_def base)
qed

lemma get_base_filename_none:
  assumes "match_suffix r = Some m" "pre = [] \<or> newline \<in> set pre"
  shows "get_base_filename (pre @ r) = None"
proof (cases pre)
  case Nil
  from match_suffix_dash [OF assms(1)] obtain r' where r: "r = CHR ''-'' # r'" "CHR ''-'' \<notin> set r'"
    by blast
  show ?thesis
    using lazy_group_no_dash [OF r(2)] by (simp add: Nil r get_base_filename_def newline_def)
next
  case (Cons c p)
  show ?thesis
  proof (cases "c = newline")
    case True
    then show ?thesis by (simp add: Cons get_base_filename_def)
  next
    case False
    with assms(2) Cons have "newline \<in> set p" by auto
    from lazy_group_newline [OF assms(1) this] False show ?thesis
      by (simp add: Cons get_base_filename_def)
  qed
qed

lemma re_search_suffix_sound:
  "re_search_suffix acc r = Some (pre, ds, rest) \<Longrightarrow>
     \<exists>p s. r = p @ s \<and> pre = acc @ p \<and> match_suffix s = Some (ds, rest)"
proof (induction r arbitrary: acc)
  case Nil
  then show ?case by simp
next
  case (Cons c r)
  show ?case
  proof (cases "match_suffix (c # r)")
    case None
    with Cons.prems have "re_search_suffix (acc @ [c]) r = Some (pre, ds, rest)" by simp
    from Cons.IH [OF this] obtain p s where
      "r = p @ s" "pre = (acc @ [c]) @ p" "match_suffix s = Some (ds, rest)" by blast
    then have "c # r = (c # p) @ s \<and> pre = acc @ (c # p) \<and> match_suffix s = Some (ds, rest)"
      by simp
    then show ?thesis by blast
  next
    case (Some m)
    with Cons.prems have "pre = acc" "m = (ds, rest)" by (auto split: prod.splits)
    with Some have "c # r = [] @ (c # r) \<and> pre = acc @ [] \<and> match_suffix (c # r) = Some (ds, rest)"
      by simp
    then show ?thesis by blast
  qed
qed


text \<open>Decimal digits: \<^verbatim>\<open>int(str(n)) == n\<close>.\<close>

lemma int_of_digits_snoc:
  "int_of_digits (ds @ [c]) = 10 * int_of_digits ds + digit_value c"
  by (simp add: int_of_digits_def)

lemma digit_char_is_digit: "d < 10 \<Longrightarrow> is_digit (digit_char d)"
  unfolding is_digit_def digit_char_def by (rule nth_mem) simp

lemma below_ten: "d < 10 \<Longrightarrow> d \<in> {0, 1, 2, 3, 4, 5, 6, 7, 8, 9::nat}"
  by auto

lemma digit_value_digit_char: "d < 10 \<Longrightarrow> digit_value (digit_char d) = int d"
  by (drule below_ten) (auto simp: digit_value_def digit_char_def)

lemma digit_value_nonneg: "is_digit c \<Longrightarrow> 0 \<le> digit_value c"
  unfolding is_digit_def by (simp add: digit_value_def; elim disjE; simp)

lemma int_of_digits_nonneg:
  "\<forall>c \<in> set ds. is_digit c \<Longrightarrow> 0 \<le> int_of_digits ds"
proof (induction ds rule: rev_induct)
  case Nil
  then show ?case by (simp add: int_of_digits_def)
next
  case (snoc c ds)
  then show ?case
    using digit_value_nonneg [of c] by (simp add: int_of_digits_snoc)
qed

lemma str_nat_digits: "str_nat n \<noteq> [] \<and> (\<forall>c \<in> set (str_nat n). is_digit c)"
proof (induction n rule: str_nat.induct)
  case (1 n)
  show ?case
  proof (cases "n < 10")
    case True
    then have "str_nat n = [digit_char n]" by (simp add: str_nat.simps [of n])
    with True show ?thesis by (simp add: digit_char_is_digit)
  next
    case False
    then have "str_nat n = str_nat (n div 10) @ [digit_char (n mod 10)]"
      by (simp add: str_nat.simps [of n])
    moreover have "is_digit (digit_char (n mod 10))"
      by (rule digit_char_is_digit) simp
    ultimately show ?thesis using 1 False by simp
  qed
qed

lemma int_of_digits_str_nat: "int_of_digits (str_nat n) = int n"
proof (induction n rule: str_nat.induct)
  case (1 n)
  show ?case
  proof (cases "n < 10")
    case True
    then have "str_nat n = [digit_char n]" by (simp add: str_nat.simps [of n])
    with True show ?thesis by (simp add: int_of_digits_def digit_value_digit_char)
  next
    case False
    then have "str_nat n = str_nat (n div 10) @ [digit_char (n mod 10)]"
      by (simp add: str_nat.simps [of n])
    moreover have "digit_value (digit_char (n mod 10)) = int (n mod 10)"
      by (rule digit_value_digit_char) simp
    ultimately have "int_of_digits (str_nat n) = 10 * int (n div 10) + int (n mod 10)"
      using 1 False by (simp add: int_of_digits_snoc)
    also have "\<dots> = int n" by presburger
    finally show ?thesis .
  qed
qed

text \<open>The searches, and the pattern of the specification.\<close>

lemma extract_page_count_found:
  assumes "match_suffix r = Some (ds, rest)"
  shows "extract_page_count (p @ r) = Some (int_of_digits ds)"
  using re_search_suffix_found [OF assms, of "[]" p] by (simp add: extract_page_count_def)


lemma is_image_file_split:
  assumes "is_image_file f"
  shows "\<exists>pre s ds rest. f = pre @ s \<and> match_suffix s = Some (ds, rest)
           \<and> re_search_suffix [] f = Some (pre, ds, rest)"
proof -
  from assms obtain pre ds rest where s: "re_search_suffix [] f = Some (pre, ds, rest)"
    by (auto simp: is_image_file_def)
  from re_search_suffix_sound [OF s] obtain p t where
    "f = p @ t" "pre = p" "match_suffix t = Some (ds, rest)" by auto
  with s show ?thesis by blast
qed







lemmas codec_eval =
  extract_page_count_def get_base_filename_def get_output_filename_def is_image_file_def
  match_suffix_def extensions_def at_dollar_def is_digit_def int_of_digits_def
  digit_value_def newline_def

text \<open>
  C2 as stated covers every case variant of the extension. The alternation of the source
  lists the three extensions in lower case and in upper case only: \<^verbatim>\<open>a-1.Png\<close> has the
  form of the claim and neither function accepts it.
\<close>

theorem codec_mixed_case_counterexample:
  "spec_extension ''Png''
   \<and> extract_page_count ''a-1.Png'' = None \<and> get_base_filename ''a-1.Png'' = None"
  by (simp add: codec_eval spec_extension_def lower_char_def)

text \<open>
  C2, amended. For a name \<^verbatim>\<open><base>-<digits>.<ext>\<close> with a non-empty base that holds no
  newline, a non-empty run of decimal digits and an extension among \<^verbatim>\<open>png\<close>, \<^verbatim>\<open>jpg\<close>,
  \<^verbatim>\<open>jpeg\<close>, \<^verbatim>\<open>PNG\<close>, \<^verbatim>\<open>JPG\<close>, \<^verbatim>\<open>JPEG\<close>, \<^verbatim>\<open>extract_page_count\<close> returns the value of the
  digits (so \<open>n\<close> for the decimal numeral of \<open>n\<close>) and \<^verbatim>\<open>get_base_filename\<close> returns the
  base exactly, whatever hyphens and digits the base holds.
\<close>

theorem codec_accepts_page_suffix:
  assumes "base \<noteq> []" and "newline \<notin> set base"
    and "ds \<noteq> []" and "\<forall>c \<in> set ds. is_digit c"
    and "e \<in> set extensions"
  shows "extract_page_count (base @ ''-'' @ ds @ ''.'' @ e) = Some (int_of_digits ds)
       \<and> get_base_filename (base @ ''-'' @ ds @ ''.'' @ e) = Some base
       \<and> (\<forall>n. ds = str_nat n \<longrightarrow>
            extract_page_count (base @ ''-'' @ ds @ ''.'' @ e) = Some (int n))"
proof -
  have m: "match_suffix (CHR ''-'' # ds @ CHR ''.'' # e @ []) = Some (ds, [])"
    using assms(3-5) by (intro match_suffix_complete) (simp_all add: at_dollar_def)
  have 1: "extract_page_count (base @ ''-'' @ ds @ ''.'' @ e) = Some (int_of_digits ds)"
    using extract_page_count_found [OF m, of base] by simp
  have 2: "get_base_filename (base @ ''-'' @ ds @ ''.'' @ e) = Some base"
    using get_base_filename_found [OF m assms(1,2)] by simp
  from 1 2 show ?thesis
    by (auto simp: int_of_digits_str_nat)
qed

text \<open>A base with a hyphen and a digit, a two-digit count, an upper-case extension.\<close>

theorem codec_accepts_page_suffix_witness:
  "''a-b2'' \<noteq> [] \<and> newline \<notin> set ''a-b2'' \<and> ''12'' \<noteq> [] \<and> list_all is_digit ''12''
   \<and> ''JPEG'' \<in> set extensions
   \<and> extract_page_count ''a-b2-12.JPEG'' = Some 12
   \<and> get_base_filename ''a-b2-12.JPEG'' = Some ''a-b2''"
proof -
  have h: "''a-b2'' \<noteq> []" "newline \<notin> set ''a-b2''" "''12'' \<noteq> []"
    "\<forall>c \<in> set ''12''. is_digit c" "''JPEG'' \<in> set extensions"
    by (simp_all add: newline_def is_digit_def extensions_def)
  have v: "int_of_digits ''12'' = 12"
    by (simp add: int_of_digits_def digit_value_def)
  from codec_accepts_page_suffix [OF h] h v show ?thesis by (simp add: list_all_iff)
qed




text \<open>
  C10 as stated says that a discovered file always has a positive page count and a
  non-empty base name. \<^verbatim>\<open>-5.png\<close> is discovered and has no base name (the lazy group needs
  one character); \<^verbatim>\<open>a-0.png\<close> is discovered and its page count is 0.
\<close>

theorem discovered_not_always_parsed_counterexample:
  "is_image_file ''-5.png'' \<and> get_base_filename ''-5.png'' = None
   \<and> is_image_file ''a-0.png'' \<and> extract_page_count ''a-0.png'' = Some 0"
  by (simp add: codec_eval)

text \<open>
  C10, amended. A discovered name is some text \<open>pre\<close> followed by a match of the suffix
  pattern. \<^verbatim>\<open>extract_page_count\<close> returns an integer \<open>n \<ge> 0\<close>, never none, so the first skip
  branch cannot be taken. \<^verbatim>\<open>get_base_filename\<close> returns \<open>pre\<close> when \<open>pre\<close> is not empty and
  holds no newline; otherwise it returns none, and the file takes the second skip branch:
  two messages are queued and nothing else happens.
\<close>

theorem discovered_file_parse:
  assumes "is_image_file f"
  shows "\<exists>n pre s. f = pre @ s \<and> match_suffix s \<noteq> None
       \<and> extract_page_count f = Some n \<and> 0 \<le> n
       \<and> get_base_filename f = (if pre = [] \<or> newline \<in> set pre then None else Some pre)
       \<and> (get_base_filename f = None \<longrightarrow>
            process_file folder_path output_folder f w =
              (Return False, appendLog (Msg_skip_no_base f) (appendLog (Msg_processing f n) w)))"
proof -
  from is_image_file_split [OF assms] obtain pre s ds rest where
    f: "f = pre @ s" "match_suffix s = Some (ds, rest)"
       "re_search_suffix [] f = Some (pre, ds, rest)" by blast
  define n where "n = int_of_digits ds"
  from match_suffix_sound [OF f(2)] have "\<forall>c \<in> set ds. is_digit c" by blast
  then have n0: "0 \<le> n" unfolding n_def by (rule int_of_digits_nonneg)
  have e: "extract_page_count f = Some n"
    by (simp add: extract_page_count_def f(3) n_def)
  have b: "get_base_filename f = (if pre = [] \<or> newline \<in> set pre then None else Some pre)"
  proof (cases "pre = [] \<or> newline \<in> set pre")
    case True
    with get_base_filename_none [OF f(2) True] show ?thesis by (simp add: f(1))
  next
    case False
    with get_base_filename_found [OF f(2), of pre] show ?thesis by (simp add: f(1))
  qed
  have p: "get_base_filename f = None \<longrightarrow>
            process_file folder_path output_folder f w =
              (Return False, appendLog (Msg_skip_no_base f) (appendLog (Msg_processing f n) w))"
  proof
    assume g: "get_base_filename f = None"
    show "process_file folder_path output_folder f w =
              (Return False, appendLog (Msg_skip_no_base f) (appendLog (Msg_processing f n) w))"
      unfolding process_file_def e g by (simp add: Let_def)
  qed
  from f(2) have ms: "match_suffix s \<noteq> None" by simp
  have "f = pre @ s \<and> match_suffix s \<noteq> None
       \<and> extract_page_count f = Some n \<and> 0 \<le> n
       \<and> get_base_filename f = (if pre = [] \<or> newline \<in> set pre then None else Some pre)
       \<and> (get_base_filename f = None \<longrightarrow>
            process_file folder_path output_folder f w =
              (Return False, appendLog (Msg_skip_no_base f) (appendLog (Msg_processing f n) w)))"
    by (intro conjI) (fact f(1) ms e n0 b p)+
  then show ?thesis by (intro exI)
qed

text \<open>The name \<^verbatim>\<open>-5.png\<close> is discovered and skipped.\<close>

theorem discovered_file_parse_witness:
  "is_image_file ''-5.png''
   \<and> extract_page_count ''-5.png'' = Some 5 \<and> get_base_filename ''-5.png'' = None
   \<and> process_file ''in'' ''out'' ''-5.png'' example_world =
       (Return False, appendLog (Msg_skip_no_base ''-5.png'')
          (appendLog (Msg_processing ''-5.png'' 5) example_world))"
proof -
  have d: "is_image_file ''-5.png''" by (simp add: codec_eval)
  have e: "extract_page_count ''-5.png'' = Some 5" by (simp add: codec_eval)
  have b: "get_base_filename ''-5.png'' = None" by (simp add: codec_eval)
  from discovered_file_parse [OF d, of "''in''" "''out''" example_world]
  show ?thesis
  proof (elim exE conjE)
    fix n pre s
    assume n: "extract_page_count ''-5.png'' = Some n"
      and p: "get_base_filename ''-5.png'' = None \<longrightarrow>
       process_file ''in'' ''out'' ''-5.png'' example_world =
         (Return False, appendLog (Msg_skip_no_base ''-5.png'')
            (appendLog (Msg_processing ''-5.png'' n) example_world))"
    from n e have "n = 5" by simp
    with p b d e show ?thesis by simp
  qed
qed

subsection \<open>Writing files\<close>

text \<open>What a successful \<^verbatim>\<open>save\<close> changes, and what it leaves alone.\<close>

lemma add_entry_other: "q \<noteq> dirname p \<Longrightarrow> add_entry p m q = m q"
  by (simp add: add_entry_def split: option.splits node.splits)

lemma add_entry_file:
  "m q = Some (File fr) \<Longrightarrow> add_entry p m q = Some (File fr)"
  by (cases "q = dirname p") (simp_all add: add_entry_def split: option.splits node.splits)

lemma add_entry_is_dir:
  "(\<exists>es. add_entry p m q = Some (Dir es)) \<longleftrightarrow> (\<exists>es. m q = Some (Dir es))"
  by (cases "q = dirname p") (auto simp: add_entry_def split: option.splits node.splits)

lemma os_path_isdir_iff: "os_path_isdir w p \<longleftrightarrow> (\<exists>es. fs w p = Some (Dir es))"
  by (auto simp: os_path_isdir_def split: option.splits node.splits)

lemma Image_save_ok:
  "save_ok w p \<Longrightarrow>
   Image_save frames p w = (Return (), w\<lparr>fs := add_entry p ((fs w)(p \<mapsto> File frames))\<rparr>)"
  by (auto simp: save_ok_def Image_save_def)

lemma Image_save_Return:
  assumes "Image_save frames p w = (Return u, w')"
  shows "save_ok w p \<and> w' = w\<lparr>fs := add_entry p ((fs w)(p \<mapsto> File frames))\<rparr>"
  using assms by (auto simp: save_ok_def Image_save_def split: option.splits if_splits)

lemma Image_save_Raise:
  "Image_save frames p w = (Raise e, w') \<Longrightarrow> w' = w \<and> \<not> save_ok w p"
  by (auto simp: save_ok_def Image_save_def split: option.splits if_splits)

lemma saved_isdir:
  assumes "\<not> os_path_isdir w p"
  shows "os_path_isdir (w\<lparr>fs := add_entry p ((fs w)(p \<mapsto> File frames))\<rparr>) q = os_path_isdir w q"
proof (cases "q = p")
  case True
  have "add_entry p ((fs w)(p \<mapsto> File frames)) p = Some (File frames)"
    by (rule add_entry_file) simp
  with True assms show ?thesis by (simp add: os_path_isdir_iff)
next
  case False
  then show ?thesis by (simp add: os_path_isdir_iff add_entry_is_dir)
qed

lemma saved_save_ok:
  assumes "\<not> os_path_isdir w p"
  shows "save_ok (w\<lparr>fs := add_entry p ((fs w)(p \<mapsto> File frames))\<rparr>) q = save_ok w q"
  by (simp add: save_ok_def saved_isdir [OF assms])

lemma saved_file_at:
  "fs (w\<lparr>fs := add_entry p ((fs w)(p \<mapsto> File frames))\<rparr>) p = Some (File frames)"
  by (simp add: add_entry_file)

lemma saved_file_kept:
  assumes "fs w q = Some (File fr)" "q \<noteq> p"
  shows "fs (w\<lparr>fs := add_entry p ((fs w)(p \<mapsto> File frames))\<rparr>) q = Some (File fr)"
  using assms by (simp add: add_entry_file)

lemma saved_frame:
  assumes "q \<noteq> p" "q \<noteq> dirname p"
  shows "fs (w\<lparr>fs := add_entry p ((fs w)(p \<mapsto> File frames))\<rparr>) q = fs w q"
  using assms by (simp add: add_entry_other)

text \<open>The loop of \<^verbatim>\<open>save_cut_images\<close>.\<close>

lemma str_nat_inj: "str_nat i = str_nat j \<Longrightarrow> i = j"
proof -
  assume "str_nat i = str_nat j"
  then have "int_of_digits (str_nat i) = int_of_digits (str_nat j)" by (rule arg_cong)
  then have "int i = int j" by (simp only: int_of_digits_str_nat)
  then show "i = j" by simp
qed

lemma strip_name_inj: "strip_name b i = strip_name b j \<Longrightarrow> i = j"
  by (auto simp: strip_name_def dest: str_nat_inj)

lemma strip_name_hd:
  "strip_name b i \<noteq> [] \<and> hd (strip_name b i) = (if b = [] then CHR ''-'' else hd b)"
  by (simp add: strip_name_def hd_append)

lemma strip_path_inj:
  assumes "join out (strip_name b i) = join out (strip_name b j)"
  shows "i = j"
proof -
  have "strip_name b i = strip_name b j"
    using assms strip_name_hd [of b i] strip_name_hd [of b j]
    by (simp add: join_def split: if_splits)
  then show ?thesis by (rule strip_name_inj)
qed

lemma save_loop_ok:
  assumes "\<forall>x \<in> set xs. save_ok w (join out (strip_name b (fst x)))"
    and "distinct (map fst xs)"
  shows "\<exists>w'. save_loop xs b out saved w =
             (Return (saved @ map (\<lambda>x. join out (strip_name b (fst x))) xs), w')
       \<and> (\<forall>x \<in> set xs. fs w' (join out (strip_name b (fst x))) = Some (File [snd x]))
       \<and> (\<forall>q fr. q \<notin> (\<lambda>x. join out (strip_name b (fst x))) ` set xs \<longrightarrow>
             fs w q = Some (File fr) \<longrightarrow> fs w' q = Some (File fr))
       \<and> (\<forall>q. q \<notin> (\<lambda>x. join out (strip_name b (fst x))) ` set xs \<longrightarrow>
             q \<notin> (\<lambda>x. dirname (join out (strip_name b (fst x)))) ` set xs \<longrightarrow>
             fs w' q = fs w q)
       \<and> (\<forall>q. os_path_isdir w' q = os_path_isdir w q)
       \<and> log_queue w' = log_queue w"
  using assms
proof (induction xs arbitrary: saved w)
  case Nil
  then show ?case by simp
next
  case (Cons x xs)
  obtain i img where x: "x = (i, img)" by (cases x)
  define P where "P = (\<lambda>x :: nat \<times> image. join out (strip_name b (fst x)))"
  define w1 where "w1 = w\<lparr>fs := add_entry (P x) ((fs w)((P x) \<mapsto> File [img]))\<rparr>"
  from Cons.prems(1) have ok: "save_ok w (P x)" by (simp add: P_def)
  then have nd: "\<not> os_path_isdir w (P x)" by (simp add: save_ok_def)
  have step: "Image_save [img] (P x) w = (Return (), w1)"
    unfolding w1_def by (rule Image_save_ok [OF ok])
  from Cons.prems(1) have "\<forall>y \<in> set xs. save_ok w (P y)" by (simp add: P_def)
  then have ok1: "\<forall>y \<in> set xs. save_ok w1 (P y)"
    unfolding w1_def by (simp add: saved_save_ok [OF nd])
  from Cons.prems(2) have d: "distinct (map fst xs)" "fst x \<notin> fst ` set xs" by auto
  from Cons.IH [of w1 "saved @ [P x]", OF ok1 [unfolded P_def] d(1)]
  obtain w' where
    run: "save_loop xs b out (saved @ [P x]) w1 = (Return ((saved @ [P x]) @ map P xs), w')"
    and files: "\<forall>y \<in> set xs. fs w' (P y) = Some (File [snd y])"
    and kept: "\<forall>q fr. q \<notin> P ` set xs \<longrightarrow> fs w1 q = Some (File fr) \<longrightarrow> fs w' q = Some (File fr)"
    and frame: "\<forall>q. q \<notin> P ` set xs \<longrightarrow> q \<notin> (\<lambda>y. dirname (P y)) ` set xs \<longrightarrow> fs w' q = fs w1 q"
    and dirs: "\<forall>q. os_path_isdir w' q = os_path_isdir w1 q"
    and log: "log_queue w' = log_queue w1"
    unfolding P_def by blast
  have notin: "P x \<notin> P ` set xs"
  proof
    assume "P x \<in> P ` set xs"
    then obtain y where y: "y \<in> set xs" "P x = P y" by blast
    from y(2) have "fst x = fst y" unfolding P_def by (rule strip_path_inj)
    with y(1) d(2) show False by auto
  qed
  have 1: "save_loop (x # xs) b out saved w = (Return (saved @ map P (x # xs)), w')"
    using step run by (simp add: x P_def)
  have "fs w1 (P x) = Some (File [img])"
    unfolding w1_def by (rule saved_file_at)
  with kept notin have here: "fs w' (P x) = Some (File [snd x])" by (simp add: x)
  with files have 2: "\<forall>y \<in> set (x # xs). fs w' (P y) = Some (File [snd y])" by simp
  have 3: "\<forall>q fr. q \<notin> P ` set (x # xs) \<longrightarrow> fs w q = Some (File fr) \<longrightarrow> fs w' q = Some (File fr)"
  proof (intro allI impI)
    fix q fr assume q: "q \<notin> P ` set (x # xs)" "fs w q = Some (File fr)"
    then have "q \<noteq> P x" by auto
    with q(2) have "fs w1 q = Some (File fr)"
      unfolding w1_def by (intro saved_file_kept)
    with kept q(1) show "fs w' q = Some (File fr)" by simp
  qed
  have 4: "\<forall>q. q \<notin> P ` set (x # xs) \<longrightarrow> q \<notin> (\<lambda>y. dirname (P y)) ` set (x # xs) \<longrightarrow> fs w' q = fs w q"
  proof (intro allI impI)
    fix q assume q: "q \<notin> P ` set (x # xs)" "q \<notin> (\<lambda>y. dirname (P y)) ` set (x # xs)"
    then have "q \<noteq> P x" "q \<noteq> dirname (P x)" by auto
    then have "fs w1 q = fs w q"
      unfolding w1_def by (intro saved_frame)
    moreover from q frame have "fs w' q = fs w1 q" by simp
    ultimately show "fs w' q = fs w q" by simp
  qed
  have 5: "\<forall>q. os_path_isdir w' q = os_path_isdir w q"
    using dirs unfolding w1_def by (simp add: saved_isdir [OF nd])
  have 6: "log_queue w' = log_queue w"
    using log by (simp add: w1_def)
  from 1 2 3 4 5 6 show ?case
    unfolding P_def by blast
qed

lemma save_loop_Return:
  "save_loop xs b out saved w = (Return paths, w') \<Longrightarrow>
     \<forall>x \<in> set xs. save_ok w (join out (strip_name b (fst x)))"
proof (induction xs arbitrary: saved w)
  case Nil
  then show ?case by simp
next
  case (Cons x xs)
  obtain i img where x: "x = (i, img)" by (cases x)
  define p where "p = join out (strip_name b i)"
  from Cons.prems obtain u w1 where
    s: "Image_save [img] p w = (Return u, w1)"
       "save_loop xs b out (saved @ [p]) w1 = (Return paths, w')"
    by (auto simp: x p_def Let_def split: prod.splits res.splits)
  from Image_save_Return [OF s(1)] have ok: "save_ok w p"
    and w1: "w1 = w\<lparr>fs := add_entry p ((fs w)(p \<mapsto> File [img]))\<rparr>" by simp_all
  from ok have nd: "\<not> os_path_isdir w p" by (simp add: save_ok_def)
  from Cons.IH [OF s(2)] have "\<forall>y \<in> set xs. save_ok w (join out (strip_name b (fst y)))"
    unfolding w1 by (simp add: saved_save_ok [OF nd])
  with ok show ?case by (simp add: x p_def)
qed

text \<open>The paths of \<^verbatim>\<open>enumerate(images, 1)\<close>, and the frames \<^verbatim>\<open>images_to_pdf\<close> saves.\<close>

lemma enumerate_paths:
  "map (\<lambda>x. join out (strip_name b (fst x))) (enumerate 1 images) =
     strip_paths b out (length images)"
proof -
  have "[1..<Suc (length images)] = map fst (enumerate 1 images)"
    by (simp add: map_fst_enumerate del: upt_Suc)
  then show ?thesis
    unfolding strip_paths_def by (simp only: map_map comp_def)
qed

lemma enumerate_path_set:
  "(\<lambda>x. join out (strip_name b (fst x))) ` set (enumerate 1 images) =
     set (strip_paths b out (length images))"
  using enumerate_paths [of out b images, THEN arg_cong, of set] by simp

lemma enumerate_dir_set:
  "(\<lambda>x. dirname (join out (strip_name b (fst x)))) ` set (enumerate 1 images) =
     dirname ` set (strip_paths b out (length images))"
  using enumerate_path_set [of out b images, THEN arg_cong, of "\<lambda>S. dirname ` S"]
  by (simp add: image_image)

lemma images_to_pdf_nonempty:
  assumes "images \<noteq> []"
  shows "images_to_pdf images output_path w = Image_save (map rgb_page images) output_path w"
proof -
  have f: "(\<lambda>img. if mode img \<noteq> ''RGB'' then convert_RGB img else img) = rgb_page"
    by (simp add: fun_eq_iff rgb_page_def)
  from assms obtain r rs where r: "map rgb_page images = r # rs"
    by (cases images) auto
  show ?thesis
    unfolding images_to_pdf_def Let_def f by (simp only: r) (use assms in simp)
qed

lemma example_save_ok: "save_ok example_world ''in/report.pdf''"
  by (simp add: save_ok_def example_world_def os_path_isdir_def dirname_def rstrip_slash_def)

text \<open>
  C5 as stated asks \<^verbatim>\<open>images_to_pdf\<close> to fail on an empty sequence. The source returns at
  once (\<^verbatim>\<open>if not images: return\<close>): no exception, and nothing is written.
\<close>

theorem images_to_pdf_empty_counterexample:
  "images_to_pdf [] ''in/report.pdf'' example_world = (Return (), example_world)"
  by (simp add: images_to_pdf_def)

text \<open>
  C5, amended. On an empty sequence \<^verbatim>\<open>images_to_pdf\<close> returns normally and leaves the
  world as it is. On a non-empty sequence it makes exactly one \<^verbatim>\<open>save\<close>, to the output
  path, of the images converted to RGB, in their order; when that write succeeds the file
  at the output path holds one page per image, page \<open>k\<close> being image \<open>k\<close>, and apart from
  the listing of its directory nothing else changes. One image gives one page.
\<close>

theorem images_to_pdf_pages:
  "images_to_pdf [] output_path w = (Return (), w)
   \<and> (images \<noteq> [] \<longrightarrow>
        images_to_pdf images output_path w = Image_save (map rgb_page images) output_path w)
   \<and> (images \<noteq> [] \<and> save_ok w output_path \<longrightarrow>
        (\<exists>w'. images_to_pdf images output_path w = (Return (), w')
           \<and> fs w' output_path = Some (File (map rgb_page images))
           \<and> length (map rgb_page images) = length images
           \<and> (\<forall>k < length images. map rgb_page images ! k = rgb_page (images ! k))
           \<and> (\<forall>q. q \<noteq> output_path \<and> q \<noteq> dirname output_path \<longrightarrow> fs w' q = fs w q)))"
proof (intro conjI impI)
  show "images_to_pdf [] output_path w = (Return (), w)"
    by (simp add: images_to_pdf_def)
next
  assume "images \<noteq> []"
  then show "images_to_pdf images output_path w = Image_save (map rgb_page images) output_path w"
    by (rule images_to_pdf_nonempty)
next
  assume a: "images \<noteq> [] \<and> save_ok w output_path"
  define w' where
    "w' = w\<lparr>fs := add_entry output_path ((fs w)(output_path \<mapsto> File (map rgb_page images)))\<rparr>"
  have "images_to_pdf images output_path w = (Return (), w')"
    using a by (simp add: images_to_pdf_nonempty Image_save_ok w'_def)
  moreover have "fs w' output_path = Some (File (map rgb_page images))"
    unfolding w'_def by (rule saved_file_at)
  moreover have "\<forall>q. q \<noteq> output_path \<and> q \<noteq> dirname output_path \<longrightarrow> fs w' q = fs w q"
  proof (intro allI impI)
    fix q assume "q \<noteq> output_path \<and> q \<noteq> dirname output_path"
    then show "fs w' q = fs w q"
      unfolding w'_def by (intro saved_frame) simp_all
  qed
  ultimately show "\<exists>w'. images_to_pdf images output_path w = (Return (), w')
           \<and> fs w' output_path = Some (File (map rgb_page images))
           \<and> length (map rgb_page images) = length images
           \<and> (\<forall>k < length images. map rgb_page images ! k = rgb_page (images ! k))
           \<and> (\<forall>q. q \<noteq> output_path \<and> q \<noteq> dirname output_path \<longrightarrow> fs w' q = fs w q)"
    by (intro exI [of _ w']) simp
qed

text \<open>One RGBA image becomes a document of one RGB page.\<close>

theorem images_to_pdf_pages_witness:
  "[example_image] \<noteq> [] \<and> save_ok example_world ''in/report.pdf''
   \<and> (\<exists>w'. images_to_pdf [example_image] ''in/report.pdf'' example_world = (Return (), w')
         \<and> fs w' ''in/report.pdf'' = Some (File [\<lparr>width = 40, height = 10, mode = ''RGB''\<rparr>]))"
proof -
  have p: "map rgb_page [example_image] = [\<lparr>width = 40, height = 10, mode = ''RGB''\<rparr>]"
    by (simp add: rgb_page_def example_image_def convert_RGB_def)
  from images_to_pdf_pages [of "''in/report.pdf''" example_world "[example_image]"] example_save_ok
  obtain w' where "images_to_pdf [example_image] ''in/report.pdf'' example_world = (Return (), w')"
    "fs w' ''in/report.pdf'' = Some (File (map rgb_page [example_image]))"
    by blast
  with p example_save_ok show ?thesis by auto
qed

lemmas path_eval =
  join_def strip_name_def str_nat.simps digit_char_def dirname_def rstrip_slash_def
  basename_def

text \<open>
  C8 as stated has \<^verbatim>\<open>save_cut_images\<close> create the output directory when it is absent. It
  never creates a directory: with \<^verbatim>\<open>out\<close> absent the first write raises, nothing is written
  and \<^verbatim>\<open>out\<close> is still absent.
\<close>

theorem save_cut_images_missing_directory_counterexample:
  "fs example_world ''out'' = None
   \<and> save_cut_images [example_image] ''report'' ''out'' example_world =
       (Raise FileNotFoundError, example_world)"
  by (simp add: save_cut_images_def enumerate_simps Image_save_def os_path_isdir_def
      example_world_def path_eval)

text \<open>
  C8, amended. \<^verbatim>\<open>save_cut_images\<close> returns normally exactly when each of the \<open>N\<close> writes
  can succeed, which needs the output directory to exist already. It then returns the
  paths \<^verbatim>\<open>join(output_folder, "{base}-[di]{i}[ye].png")\<close> for \<open>i = 1, ..., N\<close> in that order,
  the file at path \<open>i\<close> holds strip \<open>i\<close>, every other file is what it was, nothing but
  these paths and the listing of their directory has changed, and no directory has been
  created.
\<close>

theorem save_cut_images_writes:
  "((\<forall>p \<in> set (strip_paths base_filename output_folder (length images)). save_ok w p) \<longrightarrow>
      (\<exists>w'. save_cut_images images base_filename output_folder w =
               (Return (strip_paths base_filename output_folder (length images)), w')
         \<and> length (strip_paths base_filename output_folder (length images)) = length images
         \<and> (\<forall>k < length images.
               strip_paths base_filename output_folder (length images) ! k =
                 join output_folder (strip_name base_filename (Suc k))
             \<and> fs w' (join output_folder (strip_name base_filename (Suc k))) =
                 Some (File [images ! k]))
         \<and> (\<forall>q fr. q \<notin> set (strip_paths base_filename output_folder (length images)) \<longrightarrow>
               fs w q = Some (File fr) \<longrightarrow> fs w' q = Some (File fr))
         \<and> (\<forall>q. q \<notin> set (strip_paths base_filename output_folder (length images)) \<longrightarrow>
               q \<notin> dirname ` set (strip_paths base_filename output_folder (length images)) \<longrightarrow>
               fs w' q = fs w q)
         \<and> (\<forall>q. os_path_isdir w' q = os_path_isdir w q)))
   \<and> (\<forall>ps w'. save_cut_images images base_filename output_folder w = (Return ps, w') \<longrightarrow>
        (\<forall>p \<in> set (strip_paths base_filename output_folder (length images)). save_ok w p))"
proof (intro conjI impI allI)
  define paths where "paths = strip_paths base_filename output_folder (length images)"
  define P where "P = (\<lambda>x :: nat \<times> image. join output_folder (strip_name base_filename (fst x)))"
  define xs where "xs = enumerate 1 images"
  have mp: "map P xs = paths"
    unfolding P_def xs_def paths_def by (rule enumerate_paths)
  then have sp: "P ` set xs = set paths"
    by (metis set_map)
  have sd: "(\<lambda>x. dirname (P x)) ` set xs = dirname ` set paths"
    unfolding sp [symmetric] by (simp add: image_image)
  assume "\<forall>p \<in> set (strip_paths base_filename output_folder (length images)). save_ok w p"
  then have ok: "\<forall>x \<in> set xs. save_ok w (P x)"
    unfolding paths_def [symmetric] sp [symmetric] by simp
  have dist: "distinct (map fst xs)"
    unfolding xs_def by (simp add: map_fst_enumerate del: upt_Suc)
  from save_loop_ok [of xs w output_folder base_filename "[]", OF ok [unfolded P_def] dist]
  obtain w' where
    run: "save_loop xs base_filename output_folder [] w = (Return (map P xs), w')"
    and files: "\<forall>x \<in> set xs. fs w' (P x) = Some (File [snd x])"
    and kept: "\<forall>q fr. q \<notin> P ` set xs \<longrightarrow> fs w q = Some (File fr) \<longrightarrow> fs w' q = Some (File fr)"
    and frame: "\<forall>q. q \<notin> P ` set xs \<longrightarrow> q \<notin> (\<lambda>x. dirname (P x)) ` set xs \<longrightarrow> fs w' q = fs w q"
    and dirs: "\<forall>q. os_path_isdir w' q = os_path_isdir w q"
    unfolding P_def by auto
  have 1: "save_cut_images images base_filename output_folder w = (Return paths, w')"
    unfolding save_cut_images_def xs_def [symmetric] using run mp by simp
  have 2: "length paths = length images"
    by (simp add: paths_def strip_paths_def del: upt_Suc)
  have 3: "\<forall>k < length images.
             paths ! k = join output_folder (strip_name base_filename (Suc k))
           \<and> fs w' (join output_folder (strip_name base_filename (Suc k))) = Some (File [images ! k])"
  proof (intro allI impI)
    fix k assume k: "k < length images"
    have "length xs = length images" by (simp add: xs_def)
    with k have "k < length xs" by simp
    then have x2: "xs ! k \<in> set xs" by (rule nth_mem)
    from k have x1: "xs ! k = (Suc k, images ! k)"
      by (simp add: xs_def nth_enumerate_eq)
    note x = x1 x2
    from k have "paths ! k = join output_folder (strip_name base_filename (Suc k))"
      by (simp add: paths_def strip_paths_def nth_map_upt del: upt_Suc)
    moreover from files x(2) have "fs w' (P (xs ! k)) = Some (File [snd (xs ! k)])" by blast
    then have "fs w' (join output_folder (strip_name base_filename (Suc k))) = Some (File [images ! k])"
      by (simp add: x(1) P_def)
    ultimately show "paths ! k = join output_folder (strip_name base_filename (Suc k))
           \<and> fs w' (join output_folder (strip_name base_filename (Suc k))) = Some (File [images ! k])"
      by simp
  qed
  from 1 2 3 kept frame dirs
  show "\<exists>w'. save_cut_images images base_filename output_folder w =
               (Return (strip_paths base_filename output_folder (length images)), w')
         \<and> length (strip_paths base_filename output_folder (length images)) = length images
         \<and> (\<forall>k < length images.
               strip_paths base_filename output_folder (length images) ! k =
                 join output_folder (strip_name base_filename (Suc k))
             \<and> fs w' (join output_folder (strip_name base_filename (Suc k))) =
                 Some (File [images ! k]))
         \<and> (\<forall>q fr. q \<notin> set (strip_paths base_filename output_folder (length images)) \<longrightarrow>
               fs w q = Some (File fr) \<longrightarrow> fs w' q = Some (File fr))
         \<and> (\<forall>q. q \<notin> set (strip_paths base_filename output_folder (length images)) \<longrightarrow>
               q \<notin> dirname ` set (strip_paths base_filename output_folder (length images)) \<longrightarrow>
               fs w' q = fs w q)
         \<and> (\<forall>q. os_path_isdir w' q = os_path_isdir w q)"
    unfolding sp sd paths_def by (intro exI [of _ w']) simp
next
  fix ps w'
  assume "save_cut_images images base_filename output_folder w = (Return ps, w')"
  then have "save_loop (enumerate 1 images) base_filename output_folder [] w = (Return ps, w')"
    by (simp add: save_cut_images_def)
  from save_loop_Return [OF this]
  have "\<forall>p \<in> (\<lambda>x. join output_folder (strip_name base_filename (fst x))) ` set (enumerate 1 images).
          save_ok w p" by simp
  then show "\<forall>p \<in> set (strip_paths base_filename output_folder (length images)). save_ok w p"
    by (simp only: enumerate_path_set)
qed

text \<open>Two strips saved into the existing directory \<^verbatim>\<open>in\<close>.\<close>

theorem save_cut_images_writes_witness:
  "list_all (save_ok example_world) (strip_paths ''report'' ''in'' 2)
   \<and> strip_paths ''report'' ''in'' 2 =
       [''in/report-'' @ [CHR 0xE7, CHR 0xAC, CHR 0xAC] @ ''1'' @ [CHR 0xE9, CHR 0xA1, CHR 0xB5] @ ''.png'',
        ''in/report-'' @ [CHR 0xE7, CHR 0xAC, CHR 0xAC] @ ''2'' @ [CHR 0xE9, CHR 0xA1, CHR 0xB5] @ ''.png'']
   \<and> (\<exists>w'. save_cut_images [example_image, example_image\<lparr>height := 4\<rparr>] ''report'' ''in'' example_world =
               (Return (strip_paths ''report'' ''in'' 2), w')
          \<and> fs w' (strip_paths ''report'' ''in'' 2 ! 0) = Some (File [example_image])
          \<and> fs w' (strip_paths ''report'' ''in'' 2 ! 1) = Some (File [example_image\<lparr>height := 4\<rparr>]))"
proof -
  have two: "[1..<Suc 2] = [1, 2]"
    by (simp add: upt_rec)
  have paths: "strip_paths ''report'' ''in'' 2 =
       [''in/report-'' @ [CHR 0xE7, CHR 0xAC, CHR 0xAC] @ ''1'' @ [CHR 0xE9, CHR 0xA1, CHR 0xB5] @ ''.png'',
        ''in/report-'' @ [CHR 0xE7, CHR 0xAC, CHR 0xAC] @ ''2'' @ [CHR 0xE9, CHR 0xA1, CHR 0xB5] @ ''.png'']"
    unfolding strip_paths_def two by (simp add: path_eval)
  have ok: "list_all (save_ok example_world) (strip_paths ''report'' ''in'' 2)"
    unfolding paths by (simp add: save_ok_def os_path_isdir_def example_world_def path_eval)
  have l2: "length [example_image, example_image\<lparr>height := 4\<rparr>] = 2" by simp
  from ok have h: "\<forall>p \<in> set (strip_paths ''report'' ''in'' 2). save_ok example_world p"
    by (simp only: list_all_iff)
  from save_cut_images_writes [of "''report''" "''in''" "[example_image, example_image\<lparr>height := 4\<rparr>]" example_world, unfolded l2] h
  obtain w' where
    r: "save_cut_images [example_image, example_image\<lparr>height := 4\<rparr>] ''report'' ''in'' example_world =
         (Return (strip_paths ''report'' ''in'' 2), w')"
    and f: "\<forall>k < 2.
               strip_paths ''report'' ''in'' 2 ! k =
                 join ''in'' (strip_name ''report'' (Suc k))
             \<and> fs w' (join ''in'' (strip_name ''report'' (Suc k))) =
                 Some (File [[example_image, example_image\<lparr>height := 4\<rparr>] ! k])"
    by blast
  from f [rule_format, of 0] f [rule_format, of 1]
  have "fs w' (strip_paths ''report'' ''in'' 2 ! 0) = Some (File [example_image])"
    "fs w' (strip_paths ''report'' ''in'' 2 ! 1) = Some (File [example_image\<lparr>height := 4\<rparr>])"
    by simp_all
  with r ok paths show ?thesis by simp
qed

subsection \<open>The orchestrator\<close>

text \<open>The four ways through \<^verbatim>\<open>process_folder\<close>, and the counters of its loop.\<close>

lemma process_files_step:
  "process_files dir out (f # rest) (s, c) w =
     (case process_file dir out f w of
        (Return False, w') \<Rightarrow> process_files dir out rest (s, c) w'
      | (Return True, w') \<Rightarrow> process_files dir out rest (s + 1, c) w'
      | (Raise e, w') \<Rightarrow> process_files dir out rest (s, c + 1) (appendLog (Msg_file_error f e) w'))"
  by (simp split: prod.splits res.splits bool.splits)


lemma process_listing_returns:
  "\<exists>w'. process_listing dir out files w = (Return (filter is_image_file files \<noteq> []), w')"
  by (auto simp: process_listing_def Let_def split: prod.splits)

lemma process_listing_none:
  "filter is_image_file files = [] \<Longrightarrow>
   process_listing dir out files w =
     (Return False, appendLog Msg_format_hint (appendLog (Msg_none_found dir) w))"
  by (simp add: process_listing_def)

lemma os_makedirs_cases:
  "(\<exists>e. os_makedirs out w = (Raise e, w)) \<or> (\<exists>w1. os_makedirs out w = (Return (), w1))"
  by (auto simp: os_makedirs_def split: option.splits node.splits)

lemma process_folder_not_dir:
  "\<not> os_path_isdir w dir \<Longrightarrow>
   process_folder dir out w = (Return False, appendLog (Msg_not_a_folder dir) w)"
  by (simp add: process_folder_def)

lemma process_folder_makedirs_raises:
  "os_path_isdir w dir \<Longrightarrow> os_makedirs out w = (Raise e, w1) \<Longrightarrow>
   process_folder dir out w = (Raise e, w1)"
  by (simp add: process_folder_def)

lemma process_folder_listdir_raises:
  "os_path_isdir w dir \<Longrightarrow> os_makedirs out w = (Return (), w1) \<Longrightarrow> os_listdir w1 dir = Raise e \<Longrightarrow>
   process_folder dir out w = (Raise e, w1)"
  by (simp add: process_folder_def)

lemma process_folder_listed:
  "os_path_isdir w dir \<Longrightarrow> os_makedirs out w = (Return (), w1) \<Longrightarrow> os_listdir w1 dir = Return files \<Longrightarrow>
   process_folder dir out w = process_listing dir out files w1"
  by (simp add: process_folder_def)

lemma process_folder_cases:
  "(\<not> os_path_isdir w dir \<and> process_folder dir out w = (Return False, appendLog (Msg_not_a_folder dir) w))
   \<or> (os_path_isdir w dir \<and> (\<exists>e w1. os_makedirs out w = (Raise e, w1) \<and> process_folder dir out w = (Raise e, w1)))
   \<or> (os_path_isdir w dir \<and> (\<exists>e w1. os_makedirs out w = (Return (), w1) \<and> os_listdir w1 dir = Raise e
          \<and> process_folder dir out w = (Raise e, w1)))
   \<or> (os_path_isdir w dir \<and> (\<exists>files w1. os_makedirs out w = (Return (), w1) \<and> os_listdir w1 dir = Return files
          \<and> process_folder dir out w = process_listing dir out files w1))"
proof (cases "os_path_isdir w dir")
  case False
  then show ?thesis by (simp add: process_folder_not_dir)
next
  case True
  from os_makedirs_cases [of out w] show ?thesis
  proof
    assume "\<exists>e. os_makedirs out w = (Raise e, w)"
    then obtain e where "os_makedirs out w = (Raise e, w)" ..
    with True process_folder_makedirs_raises [OF True this] show ?thesis by blast
  next
    assume "\<exists>w1. os_makedirs out w = (Return (), w1)"
    then obtain w1 where m: "os_makedirs out w = (Return (), w1)" ..
    show ?thesis
    proof (cases "os_listdir w1 dir")
      case (Return files)
      with True m process_folder_listed [OF True m Return] show ?thesis by blast
    next
      case (Raise e)
      with True m process_folder_listdir_raises [OF True m Raise] show ?thesis by blast
    qed
  qed
qed



text \<open>The example with a candidate that is not an image.\<close>

lemma failing_world_setup:
  "os_path_isdir failing_world ''in''"
  "os_makedirs ''out'' failing_world =
     (Return (), failing_world\<lparr>fs := (fs failing_world)(''out'' \<mapsto> Dir [])\<rparr>)"
  "os_listdir (failing_world\<lparr>fs := (fs failing_world)(''out'' \<mapsto> Dir [])\<rparr>) ''in'' =
     Return [''bad-2.png'']"
  by (simp_all add: os_path_isdir_def os_makedirs_def os_listdir_def add_entry_def
      dirname_def failing_world_def)



text \<open>
  C4 as stated calls the outcome without candidates a non-error outcome, not a failure
  signal. \<^verbatim>\<open>process_folder\<close> returns \<open>False\<close>, the value it returns for an invalid input
  directory, and the caller answers it with the alert for problems.
\<close>

theorem process_folder_no_candidates_counterexample:
  "os_path_isdir no_match_world ''in''
   \<and> fst (process_folder ''in'' ''out'' no_match_world) = Return False
   \<and> fst (process_folder ''missing'' ''out'' no_match_world) = Return False
   \<and> updateUIAfterProcessing (fst (process_thread ''in'' ''out'' no_match_world)) = Alert_problems"
  by (simp add: process_thread_def process_folder_def process_listing_def os_path_isdir_def
      os_makedirs_def os_listdir_def add_entry_def dirname_def no_match_world_def
      updateUIAfterProcessing_def codec_eval)

text \<open>
  C4, amended. When the input directory is valid, \<^verbatim>\<open>os.makedirs\<close> and \<^verbatim>\<open>os.listdir\<close>
  succeed and no listed name passes the discovery filter, \<^verbatim>\<open>process_folder\<close> queues the two
  explanatory messages and returns \<open>False\<close> without raising; no file is processed and
  nothing is counted. \<open>False\<close> is the failure signal: the caller shows the alert for
  problems.
\<close>

theorem process_folder_no_candidates:
  assumes "os_path_isdir w dir" and "os_makedirs out w = (Return (), w1)"
    and "os_listdir w1 dir = Return files" and "filter is_image_file files = []"
  shows "process_folder dir out w =
           (Return False, appendLog Msg_format_hint (appendLog (Msg_none_found dir) w1))
       \<and> fst (process_thread dir out w) = False
       \<and> updateUIAfterProcessing (fst (process_thread dir out w)) = Alert_problems"
proof -
  have "process_folder dir out w =
           (Return False, appendLog Msg_format_hint (appendLog (Msg_none_found dir) w1))"
    using process_folder_listed [OF assms(1-3)] process_listing_none [OF assms(4)] by simp
  then show ?thesis
    by (simp add: process_thread_def updateUIAfterProcessing_def)
qed

text \<open>The example without candidates.\<close>

lemma no_match_world_setup:
  "os_path_isdir no_match_world ''in''"
  "os_makedirs ''out'' no_match_world =
     (Return (), no_match_world\<lparr>fs := (fs no_match_world)(''out'' \<mapsto> Dir [])\<rparr>)"
  "os_listdir (no_match_world\<lparr>fs := (fs no_match_world)(''out'' \<mapsto> Dir [])\<rparr>) ''in'' =
     Return [''notes.png'']"
  "filter is_image_file [''notes.png''] = []"
  by (simp_all add: os_path_isdir_def os_makedirs_def os_listdir_def add_entry_def
      dirname_def no_match_world_def codec_eval)

text \<open>The directory that only holds \<^verbatim>\<open>notes.png\<close>.\<close>

theorem process_folder_no_candidates_witness:
  "os_path_isdir no_match_world ''in''
   \<and> filter is_image_file [''notes.png''] = []
   \<and> process_folder ''in'' ''out'' no_match_world =
       (Return False,
        appendLog Msg_format_hint (appendLog (Msg_none_found ''in'')
          (no_match_world\<lparr>fs := (fs no_match_world)(''out'' \<mapsto> Dir [])\<rparr>)))
   \<and> updateUIAfterProcessing (fst (process_thread ''in'' ''out'' no_match_world)) = Alert_problems"
proof -
  note t = process_folder_no_candidates [OF no_match_world_setup]
  from t no_match_world_setup(1,4) show ?thesis by blast
qed

text \<open>
  C9. A boolean returned by \<^verbatim>\<open>process_folder\<close> is \<open>True\<close> exactly when the input
  directory is a directory and a name of the listing passes the discovery filter; and
  \<^verbatim>\<open>process_folder\<close> returns \<open>True\<close> exactly in that case (with the listing obtained, that
  is, \<^verbatim>\<open>os.makedirs\<close> and \<^verbatim>\<open>os.listdir\<close> not raising). The outcome of the files does not
  enter.
\<close>

theorem process_folder_signal:
  "(\<forall>b w'. process_folder dir out w = (Return b, w') \<longrightarrow>
      (b \<longleftrightarrow> os_path_isdir w dir
          \<and> (\<exists>w1 files. os_makedirs out w = (Return (), w1) \<and> os_listdir w1 dir = Return files
                \<and> (\<exists>f \<in> set files. is_image_file f))))
   \<and> ((\<exists>w'. process_folder dir out w = (Return True, w')) \<longleftrightarrow>
        os_path_isdir w dir
        \<and> (\<exists>w1 files. os_makedirs out w = (Return (), w1) \<and> os_listdir w1 dir = Return files
              \<and> (\<exists>f \<in> set files. is_image_file f)))"
proof -
  define good where "good \<longleftrightarrow> os_path_isdir w dir
        \<and> (\<exists>w1 files. os_makedirs out w = (Return (), w1) \<and> os_listdir w1 dir = Return files
              \<and> (\<exists>f \<in> set files. is_image_file f))"
  have cand: "\<And>files. filter is_image_file files \<noteq> [] \<longleftrightarrow> (\<exists>f \<in> set files. is_image_file f)"
    by (simp add: filter_empty_conv)
  have a: "\<forall>b w'. process_folder dir out w = (Return b, w') \<longrightarrow> (b \<longleftrightarrow> good)"
  proof (intro allI impI)
    fix b w' assume r: "process_folder dir out w = (Return b, w')"
    from process_folder_cases [of w dir out]
    consider (nodir) "\<not> os_path_isdir w dir" "process_folder dir out w = (Return False, appendLog (Msg_not_a_folder dir) w)"
      | (mk) e w1 where "os_makedirs out w = (Raise e, w1)" "process_folder dir out w = (Raise e, w1)"
      | (ls) e w1 where "os_makedirs out w = (Return (), w1)" "os_listdir w1 dir = Raise e" "process_folder dir out w = (Raise e, w1)"
      | (ok) files w1 where "os_path_isdir w dir" "os_makedirs out w = (Return (), w1)" "os_listdir w1 dir = Return files"
          "process_folder dir out w = process_listing dir out files w1"
      by blast
    then show "b \<longleftrightarrow> good"
    proof cases
      case nodir
      with r show ?thesis by (simp add: good_def)
    next
      case mk
      with r show ?thesis by simp
    next
      case ls
      with r show ?thesis by simp
    next
      case ok
      from process_listing_returns [of dir out files w1] ok(4) r
      have "b \<longleftrightarrow> filter is_image_file files \<noteq> []" by auto
      with ok(1-3) show ?thesis by (auto simp: good_def cand)
    qed
  qed
  have b: "(\<exists>w'. process_folder dir out w = (Return True, w')) \<longleftrightarrow> good"
  proof
    assume "\<exists>w'. process_folder dir out w = (Return True, w')"
    with a show good by blast
  next
    assume good
    then obtain w1 files where g: "os_path_isdir w dir" "os_makedirs out w = (Return (), w1)"
      "os_listdir w1 dir = Return files" "\<exists>f \<in> set files. is_image_file f"
      by (auto simp: good_def)
    from process_folder_listed [OF g(1-3)] process_listing_returns [of dir out files w1] g(4)
    show "\<exists>w'. process_folder dir out w = (Return True, w')" by (auto simp: cand)
  qed
  from a b show ?thesis unfolding good_def by blast
qed

text \<open>The only candidate of \<open>failing_world\<close> fails, and the signal is \<open>True\<close>.\<close>

theorem process_folder_signal_witness:
  "(\<exists>w'. process_folder ''in'' ''out'' failing_world = (Return True, w'))
   \<and> is_image_file ''bad-2.png''
   \<and> fst (process_file ''in'' ''out'' ''bad-2.png''
            (appendLog (Msg_found 1) (failing_world\<lparr>fs := (fs failing_world)(''out'' \<mapsto> Dir [])\<rparr>))) =
       Raise UnidentifiedImageError"
proof -
  have c: "is_image_file ''bad-2.png''" by (simp add: codec_eval)
  then have "\<exists>f \<in> set [''bad-2.png'']. is_image_file f" by simp
  with process_folder_signal [of "''in''" "''out''" failing_world] failing_world_setup
  have "\<exists>w'. process_folder ''in'' ''out'' failing_world = (Return True, w')" by blast
  moreover have "fst (process_file ''in'' ''out'' ''bad-2.png''
            (appendLog (Msg_found 1) (failing_world\<lparr>fs := (fs failing_world)(''out'' \<mapsto> Dir [])\<rparr>))) =
       Raise UnidentifiedImageError"
    by (simp add: process_file_def codec_eval cut_image_vertically_def Image_open_def join_def
      failing_world_def appendLog_def)
  ultimately show ?thesis using c by simp
qed

end
